theory Spec2Isabelle
  imports Complex_Main "HOL-Library.Word"
begin

unbundle bit_operations_syntax

section \<open>JavaScript strings\<close>

text \<open>
  A JavaScript string is a sequence of UTF-16 code units. \<open>js\<close> turns an ASCII literal
  into that representation.
\<close>

type_synonym jsstring = "nat list"

definition js :: "string \<Rightarrow> jsstring" where
  "js s = map of_char s"

text \<open>
  \<open>String.prototype.trim\<close> strips the code units of ECMAScript's WhiteSpace and
  LineTerminator productions from both ends.
\<close>

definition isWhiteSpace :: "nat \<Rightarrow> bool" where
  "isWhiteSpace c =
     (c \<in> set [9, 10, 11, 12, 13, 32, 160, 5760, 8232, 8233, 8239, 8287, 12288, 65279]
      \<or> (8192 \<le> c \<and> c \<le> 8202))"

definition trim :: "jsstring \<Rightarrow> jsstring" where
  "trim s = rev (dropWhile isWhiteSpace (rev (dropWhile isWhiteSpace s)))"

text \<open>\<open>s.replace(/"/g, "'")\<close>: every double quote (34) becomes a single quote (39).\<close>

definition replaceQuotes :: "jsstring \<Rightarrow> jsstring" where
  "replaceQuotes s = map (\<lambda>c. if c = 34 then 39 else c) s"

text \<open>\<open>Array.prototype.join(' ')\<close>.\<close>

fun joinSpace :: "jsstring list \<Rightarrow> jsstring" where
  "joinSpace [] = []"
| "joinSpace [s] = s"
| "joinSpace (s # t # rest) = s @ [32] @ joinSpace (t # rest)"

section \<open>The JavaScript Map under AudioLRUCache\<close>

text \<open>
  A \<open>Map<number, V>\<close> iterates in insertion order; \<open>set\<close> on a present key keeps the
  key's position, \<open>delete\<close> removes it. The model is the list of entries in iteration
  order.
\<close>

type_synonym 'v jsmap = "(int \<times> 'v) list"

definition jsmap_has :: "'v jsmap \<Rightarrow> int \<Rightarrow> bool" where
  "jsmap_has m k = (k \<in> set (map fst m))"

definition jsmap_get :: "'v jsmap \<Rightarrow> int \<Rightarrow> 'v option" where
  "jsmap_get m k = map_of m k"

definition jsmap_delete :: "'v jsmap \<Rightarrow> int \<Rightarrow> 'v jsmap" where
  "jsmap_delete m k = filter (\<lambda>e. fst e \<noteq> k) m"

definition jsmap_set :: "'v jsmap \<Rightarrow> int \<Rightarrow> 'v \<Rightarrow> 'v jsmap" where
  "jsmap_set m k v =
     (if jsmap_has m k then map (\<lambda>e. if fst e = k then (k, v) else e) m
      else m @ [(k, v)])"

text \<open>\<open>m.keys().next().value\<close>: the oldest key, \<open>undefined\<close> on an empty map.\<close>

definition jsmap_first_key :: "'v jsmap \<Rightarrow> int option" where
  "jsmap_first_key m = (case m of [] \<Rightarrow> None | e # _ \<Rightarrow> Some (fst e))"

section \<open>class AudioLRUCache\<close>

record 'v AudioLRUCache =
  cache :: "'v jsmap"
  capacity :: int

definition new_AudioLRUCache :: "int \<Rightarrow> 'v AudioLRUCache" where
  "new_AudioLRUCache cap = \<lparr>cache = [], capacity = cap\<rparr>"

text \<open>
  \<open>get\<close> returns the value and refreshes the key (delete, then set again at the end);
  the non-null assertion of the source is the \<open>Some\<close> branch.
\<close>

definition lru_get :: "'v AudioLRUCache \<Rightarrow> int \<Rightarrow> 'v option \<times> 'v AudioLRUCache" where
  "lru_get c key =
     (if \<not> jsmap_has (cache c) key then (None, c)
      else (case jsmap_get (cache c) key of
              None \<Rightarrow> (None, c)
            | Some val \<Rightarrow>
                (Some val, c\<lparr>cache := jsmap_set (jsmap_delete (cache c) key) key val\<rparr>)))"

definition lru_set :: "'v AudioLRUCache \<Rightarrow> int \<Rightarrow> 'v \<Rightarrow> 'v AudioLRUCache" where
  "lru_set c key val =
     (let m = cache c;
          m' = (if jsmap_has m key then jsmap_delete m key
                else if capacity c \<le> int (length m) then
                  (case jsmap_first_key m of
                     None \<Rightarrow> m
                   | Some firstKey \<Rightarrow> jsmap_delete m firstKey)
                else m)
      in c\<lparr>cache := jsmap_set m' key val\<rparr>)"

definition lru_has :: "'v AudioLRUCache \<Rightarrow> int \<Rightarrow> bool" where
  "lru_has c key = jsmap_has (cache c) key"

definition lru_delete :: "'v AudioLRUCache \<Rightarrow> int \<Rightarrow> 'v AudioLRUCache" where
  "lru_delete c key = c\<lparr>cache := jsmap_delete (cache c) key\<rparr>"

definition lru_clear :: "'v AudioLRUCache \<Rightarrow> 'v AudioLRUCache" where
  "lru_clear c = c\<lparr>cache := []\<rparr>"

definition lru_size :: "'v AudioLRUCache \<Rightarrow> nat" where
  "lru_size c = length (cache c)"

definition lru_keys :: "'v AudioLRUCache \<Rightarrow> int list" where
  "lru_keys c = map fst (cache c)"

text \<open>A call on the cache, and a sequence of calls run in order.\<close>

datatype 'v cache_call =
    CGet int
  | CSet int 'v
  | CHas int
  | CDelete int
  | CClear

fun cache_step :: "'v AudioLRUCache \<Rightarrow> 'v cache_call \<Rightarrow> 'v AudioLRUCache" where
  "cache_step c (CGet k) = snd (lru_get c k)"
| "cache_step c (CSet k v) = lru_set c k v"
| "cache_step c (CHas k) = c"
| "cache_step c (CDelete k) = lru_delete c k"
| "cache_step c CClear = lru_clear c"

fun cache_run :: "'v AudioLRUCache \<Rightarrow> 'v cache_call list \<Rightarrow> 'v AudioLRUCache" where
  "cache_run c [] = c"
| "cache_run c (x # xs) = cache_run (cache_step c x) xs"

text \<open>
  The keys a run of \<open>get\<close> and \<open>set\<close> calls accesses, in order: every \<open>set\<close>, and
  every \<open>get\<close> that finds its key. \<open>remdups\<close> of it keeps each key's last access.
\<close>

fun accessed :: "'v AudioLRUCache \<Rightarrow> 'v cache_call list \<Rightarrow> int list" where
  "accessed c [] = []"
| "accessed c (CGet k # xs) =
     (if lru_has c k then k # accessed (cache_step c (CGet k)) xs
      else accessed (cache_step c (CGet k)) xs)"
| "accessed c (CSet k v # xs) = k # accessed (cache_step c (CSet k v)) xs"
| "accessed c (x # xs) = accessed (cache_step c x) xs"

fun is_get_or_set :: "'v cache_call \<Rightarrow> bool" where
  "is_get_or_set (CGet k) = True"
| "is_get_or_set (CSet k v) = True"
| "is_get_or_set x = False"

definition lastn :: "nat \<Rightarrow> 'a list \<Rightarrow> 'a list" where
  "lastn n xs = drop (length xs - n) xs"

section \<open>Playback state\<close>

record PlaybackState =
  isPlaying :: bool
  isLoading :: bool
  currentIndex :: int
  detectedEmotion :: "jsstring option"

text \<open>
  \<open>playNext\<close> is the updater passed to \<open>setPlayback\<close>; \<open>len\<close> is
  \<open>pdfData.textSegments.length\<close>.
\<close>

definition playNext :: "nat \<Rightarrow> PlaybackState \<Rightarrow> PlaybackState" where
  "playNext len prev =
     (let nextIndex = currentIndex prev + 1
      in if nextIndex < int len then prev\<lparr>currentIndex := nextIndex\<rparr>
         else prev\<lparr>isPlaying := False, currentIndex := 0\<rparr>)"

section \<open>Errors, settings and the synthesis backends\<close>

datatype js_error =
    EmptyText
  | NoAudioReturned
  | InitializationFailed
  | TypeError
  | RangeError
  | NotSupportedError
  | BackendError nat

datatype VoiceEngine = Browser | Openai | Google

record AppSettings =
  engine :: VoiceEngine
  browserVoice :: "nat option"
  openaiKey :: jsstring
  openaiVoice :: jsstring
  googleVoice :: jsstring
  rate :: real
  pitch :: real
  darkMode :: bool
  sourceLanguage :: jsstring
  targetLanguage :: jsstring

record AudioBuffer =
  sampleRate :: nat
  numberOfChannels :: nat
  channelData :: "real list"

record AudioCacheItem =
  buffer :: AudioBuffer
  emotion :: jsstring

text \<open>
  What \<open>ai.models.generateContent\<close> answers to the tone prompt: a rejection, or a
  response whose \<open>text\<close> may be \<open>undefined\<close>. What it answers to the speech request: a
  rejection, or the inline audio data of the first part, possibly absent; the base64
  decoding of \<open>generateGeminiSpeech\<close> is taken as done, an empty string being empty data.
\<close>

datatype gen_response = GenRejected js_error | GenText "jsstring option"

datatype tts_response = TtsRejected js_error | TtsData "8 word list option"

text \<open>
  The services outside the component: the two Gemini calls and the audio context's
  \<open>createBuffer(numberOfChannels, length, sampleRate)\<close>.
\<close>

record backends =
  generateEmotion :: "jsstring \<Rightarrow> gen_response"
  generateSpeech :: "jsstring \<Rightarrow> jsstring \<Rightarrow> tts_response"
  createBuffer :: "nat \<Rightarrow> nat \<Rightarrow> nat \<Rightarrow> js_error + AudioBuffer"

text \<open>
  The Web Audio \<open>createBuffer\<close>: a zero-filled buffer, and \<open>NotSupportedError\<close> for a
  length of zero frames.
\<close>

definition zeroBuffer :: "nat \<Rightarrow> nat \<Rightarrow> nat \<Rightarrow> AudioBuffer" where
  "zeroBuffer ch len sr =
     \<lparr>sampleRate = sr, numberOfChannels = ch, channelData = replicate len 0\<rparr>"

definition webaudio_createBuffer :: "nat \<Rightarrow> nat \<Rightarrow> nat \<Rightarrow> js_error + AudioBuffer" where
  "webaudio_createBuffer ch len sr =
     (if len = 0 then Inl NotSupportedError else Inr (zeroBuffer ch len sr))"

section \<open>detectEmotion\<close>

definition quoted :: "jsstring \<Rightarrow> jsstring" where
  "quoted s = [34] @ s @ [34]"

definition emotionPrompt :: "jsstring \<Rightarrow> jsstring option \<Rightarrow> jsstring list \<Rightarrow> jsstring" where
  "emotionPrompt text previousText upcomingContext =
     (let safeText = replaceQuotes text;
          safePrevious = (case previousText of
                            None \<Rightarrow> []
                          | Some p \<Rightarrow> if p = [] then [] else replaceQuotes p);
          safeUpcoming = joinSpace (map replaceQuotes upcomingContext)
      in js ''You are a professional audiobook narrator. Your task is to determine the single best emotional tone for the ''
         @ quoted (js ''Target Sentence'') @ js '' below.'' @ [10]
         @ js ''        '' @ [10]
         @ js ''Context:'' @ [10]
         @ (if safePrevious \<noteq> [] then js ''Previous sentence: '' @ quoted safePrevious else [])
         @ [10]
         @ js ''Target Sentence: '' @ quoted safeText @ [10]
         @ (if safeUpcoming \<noteq> []
            then js ''Upcoming Context (next 5 lines): '' @ quoted safeUpcoming else [])
         @ [10] @ [10]
         @ js ''Based on the target sentence and the upcoming context, choose one adjective that best describes how to read the target sentence (e.g., Cheerful, Angry, Sad, Suspicious, Neutral, Excited, Funny, Serious, Fearful, Whispering, Shouting).''
         @ [10]
         @ js ''Return ONLY the adjective.'')"

text \<open>
  The \<open>try\<close> block: the awaited call may reject; \<open>response.text?.trim() || 'Neutral'\<close>
  falls back on an absent text and on a text that is empty once trimmed.
\<close>

definition detectEmotion_try ::
  "(jsstring \<Rightarrow> gen_response) \<Rightarrow> jsstring \<Rightarrow> jsstring option \<Rightarrow> jsstring list
    \<Rightarrow> js_error + jsstring" where
  "detectEmotion_try gen text previousText upcomingContext =
     (case gen (emotionPrompt text previousText upcomingContext) of
        GenRejected e \<Rightarrow> Inl e
      | GenText None \<Rightarrow> Inr (js ''Neutral'')
      | GenText (Some t) \<Rightarrow> Inr (if trim t = [] then js ''Neutral'' else trim t))"

text \<open>The \<open>catch\<close> block returns the fallback: \<open>Inl\<close> would be a rejected promise.\<close>

definition detectEmotion ::
  "(jsstring \<Rightarrow> gen_response) \<Rightarrow> jsstring \<Rightarrow> jsstring option \<Rightarrow> jsstring list
    \<Rightarrow> js_error + jsstring" where
  "detectEmotion gen text previousText upcomingContext =
     (case detectEmotion_try gen text previousText upcomingContext of
        Inl e \<Rightarrow> Inr (js ''Neutral'')
      | Inr r \<Rightarrow> Inr r)"

text \<open>Models that answer every prompt the same way.\<close>

definition fixedResponder :: "jsstring \<Rightarrow> jsstring \<Rightarrow> gen_response" where
  "fixedResponder t prompt = GenText (Some t)"

definition silentResponder :: "jsstring \<Rightarrow> gen_response" where
  "silentResponder prompt = GenText None"

definition rejectingResponder :: "js_error \<Rightarrow> jsstring \<Rightarrow> gen_response" where
  "rejectingResponder e prompt = GenRejected e"

section \<open>generateGeminiSpeech\<close>

definition ttsPrompt :: "jsstring \<Rightarrow> jsstring \<Rightarrow> jsstring" where
  "ttsPrompt text emo =
     js ''Speak the following text with a '' @ emo @ js '' tone: '' @ quoted text"

definition generateGeminiSpeech ::
  "(jsstring \<Rightarrow> jsstring \<Rightarrow> tts_response) \<Rightarrow> jsstring \<Rightarrow> jsstring \<Rightarrow> jsstring
    \<Rightarrow> js_error + 8 word list option" where
  "generateGeminiSpeech tts text voiceName emo =
     (case tts (ttsPrompt text emo) (if voiceName = [] then js ''Puck'' else voiceName) of
        TtsRejected e \<Rightarrow> Inl e
      | TtsData None \<Rightarrow> Inr None
      | TtsData (Some bytes) \<Rightarrow> if bytes = [] then Inr None else Inr (Some bytes))"

section \<open>decodeGeminiAudio\<close>

text \<open>
  \<open>DataView.getInt16(offset, true)\<close>: the little-endian signed 16-bit integer at
  \<open>offset\<close>, a \<open>RangeError\<close> when the two bytes are not both inside the buffer.
\<close>

definition getInt16_le :: "8 word list \<Rightarrow> nat \<Rightarrow> js_error + int" where
  "getInt16_le d offset =
     (if offset + 2 \<le> length d
      then Inr (sint (word_cat (d ! (offset + 1)) (d ! offset) :: 16 word))
      else Inl RangeError)"

text \<open>The 16-bit value read at an offset inside the buffer.\<close>

definition int16_at :: "8 word list \<Rightarrow> nat \<Rightarrow> int" where
  "int16_at d offset = sint (word_cat (d ! (offset + 1)) (d ! offset) :: 16 word)"

text \<open>
  The body of the \<open>for\<close> loop, run for the indices given. A store into a
  \<open>Float32Array\<close> beyond its length is ignored, as list update is.
\<close>

fun decode_samples :: "8 word list \<Rightarrow> nat list \<Rightarrow> real list \<Rightarrow> js_error + real list" where
  "decode_samples d [] ch = Inr ch"
| "decode_samples d (i # rest) ch =
     (let offset = i * 2
      in if offset + 1 < length d then
           (case getInt16_le d offset of
              Inl e \<Rightarrow> Inl e
            | Inr sample \<Rightarrow> decode_samples d rest (ch[i := real_of_int sample / 32768]))
         else decode_samples d rest ch)"

definition decodeGeminiAudio ::
  "(nat \<Rightarrow> nat \<Rightarrow> nat \<Rightarrow> js_error + AudioBuffer) \<Rightarrow> 8 word list \<Rightarrow> js_error + AudioBuffer" where
  "decodeGeminiAudio mkBuffer audioData =
     (let sampleRate = 24000;
          numChannels = 1;
          numSamples = length audioData div 2
      in case mkBuffer numChannels numSamples sampleRate of
           Inl e \<Rightarrow> Inl e
         | Inr audioBuffer \<Rightarrow>
             (case decode_samples audioData [0..<numSamples] (channelData audioBuffer) of
                Inl e \<Rightarrow> Inl e
              | Inr ch \<Rightarrow> Inr (audioBuffer\<lparr>channelData := ch\<rparr>)))"

section \<open>The application state\<close>

text \<open>
  A promise stored in the cache: which call made it (\<open>playSentence\<close> stores the promise
  of \<open>processGeminiSentence\<close> itself, \<open>prefetchGeminiSentence\<close> the one with its
  \<open>catch\<close> handler attached), for which index, and how it will settle.
\<close>

datatype promise_origin = ByPlay | ByPrefetch

record promise =
  p_id :: nat
  p_index :: int
  p_origin :: promise_origin
  p_outcome :: "js_error + AudioCacheItem"

text \<open>Every call that asks a synthesis backend for something.\<close>

datatype request =
    EmotionRequest jsstring
  | SpeechRequest jsstring jsstring
  | OpenAIRequest jsstring jsstring jsstring real
  | BrowserSpeak jsstring

text \<open>
  The audio output: the utterances queued in \<open>speechSynthesis\<close>, the audio elements and
  the buffer source nodes that are sounding, how many times an output was started, and
  the source nodes whose \<open>ended\<close> event is queued and not yet dispatched.
\<close>

record device =
  utterances :: "jsstring list"
  audioPlaying :: "nat list"
  sourcePlaying :: "nat list"
  activations :: nat
  pendingEnded :: "nat list"

text \<open>
  \<open>speechSynthesis.cancel()\<close> empties the queue; the utterances hear of it through
  their error handler, as \<open>interrupted\<close> or \<open>canceled\<close>, which \<open>speakBrowser\<close> ignores.
  \<open>pause()\<close> on an audio element fires no \<open>ended\<close> event.
\<close>

definition synth_cancel :: "device \<Rightarrow> device" where
  "synth_cancel d = d\<lparr>utterances := []\<rparr>"

definition audio_pause :: "nat \<Rightarrow> device \<Rightarrow> device" where
  "audio_pause a d = d\<lparr>audioPlaying := removeAll a (audioPlaying d)\<rparr>"

text \<open>
  \<open>stop()\<close> on a buffer source node. On a node that was never started it throws, and
  both callers swallow that; on a node that has ended it does nothing. A sounding node
  falls silent, and its \<open>ended\<close> event is queued, as it is when the buffer runs out.
\<close>

definition source_stop :: "nat \<Rightarrow> device \<Rightarrow> device" where
  "source_stop n d =
     (if n \<in> set (sourcePlaying d)
      then d\<lparr>sourcePlaying := removeAll n (sourcePlaying d),
             pendingEnded := pendingEnded d @ [n]\<rparr>
      else d)"

definition source_start :: "nat \<Rightarrow> device \<Rightarrow> device" where
  "source_start n d = d\<lparr>sourcePlaying := sourcePlaying d @ [n], activations := activations d + 1\<rparr>"

definition synth_speak :: "jsstring \<Rightarrow> device \<Rightarrow> device" where
  "synth_speak text d = d\<lparr>utterances := utterances d @ [text], activations := activations d + 1\<rparr>"

text \<open>
  The state of \<open>App\<close>: the React state (\<open>pdfData.textSegments\<close>, \<open>settings\<close>,
  \<open>playback\<close>), the refs, the output device, and two logs: the indices
  \<open>processGeminiSentence\<close> was invoked for, and the backend requests made. A state
  updater passed to a setter is applied at once.
\<close>

record app =
  textSegments :: "jsstring list"
  settings :: AppSettings
  playback :: PlaybackState
  activeIndexRef :: int
  audioCache :: "promise AudioLRUCache"
  audioRef :: "nat option"
  sourceNodeRef :: "nat option"
  device :: device
  nextId :: nat
  producerCalls :: "int list"
  requests :: "request list"
  alerts :: "jsstring list"

text \<open>
  What the callbacks of one render close over. \<open>playSentence\<close> reads
  \<open>playback.isPlaying\<close> from here, also after its \<open>await\<close>.
\<close>

record closure =
  c_textSegments :: "jsstring list"
  c_settings :: AppSettings
  c_isPlaying :: bool
  c_currentIndex :: int

definition render :: "app \<Rightarrow> closure" where
  "render st =
     \<lparr>c_textSegments = textSegments st, c_settings = settings st,
      c_isPlaying = isPlaying (playback st), c_currentIndex = currentIndex (playback st)\<rparr>"

section \<open>processGeminiSentence and prefetchGeminiSentence\<close>

text \<open>
  The producer, with the requests it makes. Reading a segment outside the array gives
  \<open>undefined\<close>, whose \<open>trim\<close> is a \<open>TypeError\<close>.
\<close>

definition processGeminiSentence ::
  "backends \<Rightarrow> closure \<Rightarrow> int \<Rightarrow> (js_error + AudioCacheItem) \<times> request list" where
  "processGeminiSentence be cl index =
     (let segs = c_textSegments cl in
      if index < 0 \<or> int (length segs) \<le> index then (Inl TypeError, [])
      else
        let text = segs ! nat index;
            previousText = (if 0 < index then Some (segs ! nat (index - 1)) else None);
            upcomingContext = take 5 (drop (nat (index + 1)) segs)
        in if trim text = [] then (Inl EmptyText, [])
           else
             (case detectEmotion (generateEmotion be) text previousText upcomingContext of
                Inl e \<Rightarrow> (Inl e, [EmotionRequest (emotionPrompt text previousText upcomingContext)])
              | Inr emo \<Rightarrow>
                  let voice = googleVoice (c_settings cl);
                      reqs = [EmotionRequest (emotionPrompt text previousText upcomingContext),
                              SpeechRequest (ttsPrompt text emo)
                                (if voice = [] then js ''Puck'' else voice)]
                  in (case generateGeminiSpeech (generateSpeech be) text voice emo of
                        Inl e \<Rightarrow> (Inl e, reqs)
                      | Inr None \<Rightarrow> (Inl NoAudioReturned, reqs)
                      | Inr (Some audioData) \<Rightarrow>
                          (case decodeGeminiAudio (createBuffer be) audioData of
                             Inl e \<Rightarrow> (Inl e, reqs)
                           | Inr buf \<Rightarrow> (Inr \<lparr>buffer = buf, emotion = emo\<rparr>, reqs)))))"

definition invokeProducer ::
  "backends \<Rightarrow> closure \<Rightarrow> int \<Rightarrow> promise_origin \<Rightarrow> app \<Rightarrow> promise \<times> app" where
  "invokeProducer be cl index origin st =
     (let (outcome, reqs) = processGeminiSentence be cl index;
          p = \<lparr>p_id = nextId st, p_index = index, p_origin = origin, p_outcome = outcome\<rparr>
      in (p, st\<lparr>nextId := nextId st + 1,
                producerCalls := producerCalls st @ [index],
                requests := requests st @ reqs\<rparr>))"

definition prefetchGeminiSentence :: "backends \<Rightarrow> closure \<Rightarrow> int \<Rightarrow> app \<Rightarrow> app" where
  "prefetchGeminiSentence be cl index st =
     (if int (length (c_textSegments cl)) \<le> index then st
      else if lru_has (audioCache st) index then st
      else let (p, st1) = invokeProducer be cl index ByPrefetch st
           in st1\<lparr>audioCache := lru_set (audioCache st1) index p\<rparr>)"

text \<open>
  What runs when a stored promise settles, before anything awaiting it: the \<open>catch\<close>
  handler of \<open>prefetchGeminiSentence\<close> deletes the index on rejection; the promise
  \<open>playSentence\<close> stores has no handler.
\<close>

definition promise_settled :: "promise \<Rightarrow> app \<Rightarrow> app" where
  "promise_settled p st =
     (case p_outcome p of
        Inl err \<Rightarrow>
          (case p_origin p of
             ByPrefetch \<Rightarrow> st\<lparr>audioCache := lru_delete (audioCache st) (p_index p)\<rparr>
           | ByPlay \<Rightarrow> st)
      | Inr item \<Rightarrow> st)"

section \<open>Settings\<close>

text \<open>
  The effect with dependencies \<open>[settings.googleVoice, settings.engine]\<close>, run after a
  render in which one of them changed.
\<close>

definition settings_effect :: "AppSettings \<Rightarrow> AppSettings \<Rightarrow> app \<Rightarrow> app" where
  "settings_effect old new st =
     (if googleVoice old \<noteq> googleVoice new \<or> engine old \<noteq> engine new
      then st\<lparr>audioCache := lru_clear (audioCache st)\<rparr>
      else st)"

definition setSettings :: "AppSettings \<Rightarrow> app \<Rightarrow> app" where
  "setSettings new st = settings_effect (settings st) new (st\<lparr>settings := new\<rparr>)"

section \<open>stopAudio, playSentence and the playback effect\<close>

definition stopAudio :: "app \<Rightarrow> app" where
  "stopAudio st =
     (let d1 = synth_cancel (device st);
          d2 = (case audioRef st of None \<Rightarrow> d1 | Some a \<Rightarrow> audio_pause a d1);
          d3 = (case sourceNodeRef st of None \<Rightarrow> d2 | Some n \<Rightarrow> source_stop n d2)
      in st\<lparr>device := d3, audioRef := None, sourceNodeRef := None,
             playback := (playback st)\<lparr>isPlaying := False, isLoading := False,
                                        detectedEmotion := None\<rparr>\<rparr>)"

text \<open>What \<open>playSentence\<close> is left awaiting when its synchronous part ends.\<close>

datatype wait = NoWait | AwaitItem promise | AwaitOpenAI | AwaitUtterance

definition stop_previous :: "app \<Rightarrow> app" where
  "stop_previous st =
     (let d1 = synth_cancel (device st);
          d2 = (case audioRef st of None \<Rightarrow> d1 | Some a \<Rightarrow> audio_pause a d1);
          d3 = (case sourceNodeRef st of None \<Rightarrow> d2 | Some n \<Rightarrow> source_stop n d2)
      in st\<lparr>device := d3\<rparr>)"

definition playSentence_google :: "backends \<Rightarrow> closure \<Rightarrow> int \<Rightarrow> app \<Rightarrow> app \<times> wait" where
  "playSentence_google be cl index st =
     (let (found, cache1) = lru_get (audioCache st) index;
          st1 = st\<lparr>audioCache := cache1\<rparr>;
          (itemPromise, st2) =
            (case found of
               Some p \<Rightarrow> (p, st1)
             | None \<Rightarrow>
                 let st1a = st1\<lparr>playback := (playback st1)\<lparr>isLoading := True\<rparr>\<rparr>;
                     (p, st1b) = invokeProducer be cl index ByPlay st1a
                 in (p, st1b\<lparr>audioCache := lru_set (audioCache st1b) index p\<rparr>));
          st3 = prefetchGeminiSentence be cl (index + 1) st2;
          st4 = prefetchGeminiSentence be cl (index + 2) st3
      in (st4, AwaitItem itemPromise))"

definition playSentence_begin :: "backends \<Rightarrow> closure \<Rightarrow> int \<Rightarrow> app \<Rightarrow> app \<times> wait" where
  "playSentence_begin be cl index st =
     (let segs = c_textSegments cl in
      if index < 0 \<or> int (length segs) \<le> index then (st, NoWait)
      else
        let text = segs ! nat index in
        if trim text = [] then (st\<lparr>playback := playNext (length segs) (playback st)\<rparr>, NoWait)
        else
          let st1 = stop_previous st in
          (case engine (c_settings cl) of
             Google \<Rightarrow> playSentence_google be cl index st1
           | Openai \<Rightarrow>
               if openaiKey (c_settings cl) = [] then
                 (setSettings ((settings st1)\<lparr>engine := Browser\<rparr>)
                    (st1\<lparr>alerts := alerts st1
                             @ [js ''Please add your OpenAI API Key in Settings.'']\<rparr>),
                  NoWait)
               else
                 (st1\<lparr>playback := (playback st1)\<lparr>isLoading := True, detectedEmotion := None\<rparr>,
                      requests := requests st1
                        @ [OpenAIRequest text (openaiKey (c_settings cl))
                             (openaiVoice (c_settings cl)) (rate (c_settings cl))]\<rparr>,
                  AwaitOpenAI)
           | Browser \<Rightarrow>
               (st1\<lparr>playback := (playback st1)\<lparr>detectedEmotion := None\<rparr>,
                    device := synth_speak text (device st1),
                    requests := requests st1 @ [BrowserSpeak text]\<rparr>,
                AwaitUtterance)))"

text \<open>
  The rest of the Gemini branch, run when the awaited promise has settled: the \<open>try\<close>
  block after the \<open>await\<close> on fulfilment, the \<open>catch\<close> block on rejection.
\<close>

definition playSentence_resume :: "closure \<Rightarrow> int \<Rightarrow> promise \<Rightarrow> app \<Rightarrow> app" where
  "playSentence_resume cl index itemPromise st =
     (case p_outcome itemPromise of
        Inr item \<Rightarrow>
          if activeIndexRef st \<noteq> index then st
          else if \<not> c_isPlaying cl then st
          else
            let st1 = st\<lparr>playback := (playback st)\<lparr>isLoading := False,
                                                     detectedEmotion := Some (emotion item)\<rparr>\<rparr>;
                source = nextId st1
            in st1\<lparr>nextId := source + 1, sourceNodeRef := Some source,
                    device := source_start source (device st1)\<rparr>
      | Inl err \<Rightarrow>
          if activeIndexRef st = index
          then st\<lparr>playback := (playback st)\<lparr>isPlaying := False, isLoading := False\<rparr>\<rparr>
          else st)"

text \<open>
  The dispatch of a queued \<open>ended\<close> event. \<open>playSentence\<close> binds \<open>playNext\<close> to
  \<open>source.onended\<close> of every node it starts, and nothing unbinds it; the closure is that
  of the call that created the node.
\<close>

definition source_ended :: "closure \<Rightarrow> nat \<Rightarrow> app \<Rightarrow> app" where
  "source_ended cl n st =
     (if n \<in> set (pendingEnded (device st))
      then st\<lparr>device := (device st)\<lparr>pendingEnded := removeAll n (pendingEnded (device st))\<rparr>,
              playback := playNext (length (c_textSegments cl)) (playback st)\<rparr>
      else st)"

text \<open>
  The effect that watches \<open>playback\<close>: when playing it sets the active index at once and
  arms a 10 ms timer; the timer's callback is \<open>timer_callback\<close>, with the closure of the
  render that armed it.
\<close>

definition playback_effect :: "closure \<Rightarrow> app \<Rightarrow> app \<times> bool" where
  "playback_effect cl st =
     (if c_isPlaying cl then (st\<lparr>activeIndexRef := c_currentIndex cl\<rparr>, True)
      else (st, False))"

definition timer_callback :: "backends \<Rightarrow> closure \<Rightarrow> app \<Rightarrow> app \<times> wait" where
  "timer_callback be cl st =
     (if activeIndexRef st = c_currentIndex cl
      then playSentence_begin be cl (c_currentIndex cl) st
      else (st, NoWait))"

definition togglePlay :: "closure \<Rightarrow> app \<Rightarrow> app" where
  "togglePlay cl st =
     (if length (c_textSegments cl) = 0 then st
      else if c_isPlaying cl then stopAudio st
      else st\<lparr>playback := (playback st)
                 \<lparr>isPlaying := True,
                  currentIndex := (if currentIndex (playback st) = - 1 then 0
                                   else currentIndex (playback st))\<rparr>\<rparr>)"

text \<open>
  The state \<open>App\<close> starts in, and what a successful, non-silent \<open>handleFileUpload\<close>
  leaves for the segments parsed.
\<close>

definition initialApp :: "app" where
  "initialApp =
     \<lparr>textSegments = [],
      settings = \<lparr>engine = Browser, browserVoice = None, openaiKey = [],
                  openaiVoice = js ''alloy'', googleVoice = js ''Puck'', rate = 1, pitch = 1,
                  darkMode = False, sourceLanguage = js ''en'', targetLanguage = js ''es''\<rparr>,
      playback = \<lparr>isPlaying = False, isLoading = False, currentIndex = - 1,
                  detectedEmotion = None\<rparr>,
      activeIndexRef = - 1,
      audioCache = new_AudioLRUCache 50,
      audioRef = None, sourceNodeRef = None,
      device = \<lparr>utterances = [], audioPlaying = [], sourcePlaying = [], activations = 0,
                pendingEnded = []\<rparr>,
      nextId = 0, producerCalls = [], requests = [], alerts = []\<rparr>"

definition handleFileUpload :: "jsstring list \<Rightarrow> app \<Rightarrow> app" where
  "handleFileUpload segs st =
     (let st1 = stopAudio st;
          st2 = st1\<lparr>audioCache := lru_clear (audioCache st1)\<rparr>;
          st3 = st2\<lparr>playback := \<lparr>isPlaying = False, isLoading = False, currentIndex = - 1,
                                  detectedEmotion = None\<rparr>\<rparr>;
          st4 = st3\<lparr>textSegments := segs\<rparr>
      in st4\<lparr>playback := (playback st4)\<lparr>currentIndex := 0\<rparr>\<rparr>)"

section \<open>Example backends and runs\<close>

definition fixedSpeech :: "8 word list \<Rightarrow> jsstring \<Rightarrow> jsstring \<Rightarrow> tts_response" where
  "fixedSpeech bytes prompt voice = TtsData (Some bytes)"

definition failingSpeech :: "js_error \<Rightarrow> jsstring \<Rightarrow> jsstring \<Rightarrow> tts_response" where
  "failingSpeech e prompt voice = TtsRejected e"

text \<open>A backend that finds every sentence calm and answers with one sample of audio.\<close>

definition workingBackends :: backends where
  "workingBackends =
     \<lparr>generateEmotion = fixedResponder (js ''Calm''),
      generateSpeech = fixedSpeech [0, 64],
      createBuffer = webaudio_createBuffer\<rparr>"

text \<open>A backend whose speech call is refused.\<close>

definition failingBackends :: backends where
  "failingBackends =
     \<lparr>generateEmotion = fixedResponder (js ''Calm''),
      generateSpeech = failingSpeech (BackendError 503),
      createBuffer = webaudio_createBuffer\<rparr>"

text \<open>
  The application after choosing an engine, loading a document with the given segments
  and pressing play.
\<close>

definition playingApp :: "VoiceEngine \<Rightarrow> jsstring list \<Rightarrow> app" where
  "playingApp eng segs =
     (let st0 = setSettings ((settings initialApp)\<lparr>engine := eng\<rparr>) initialApp;
          st1 = handleFileUpload segs st0
      in togglePlay (render st1) st1)"

text \<open>
  A render in a playing state with nothing intervening: the effect sets the active index
  and arms the timer, the timer fires with that render's closure. \<open>settle\<close> is the
  moment the awaited promise settles: its own handlers first, then the rest of
  \<open>playSentence\<close>, still with the closure it was called in.
\<close>

definition startPlayback :: "backends \<Rightarrow> app \<Rightarrow> app \<times> wait" where
  "startPlayback be st =
     (let cl = render st;
          (st1, armed) = playback_effect cl st
      in if armed then timer_callback be cl st1 else (st1, NoWait))"

definition settle :: "closure \<Rightarrow> int \<Rightarrow> wait \<Rightarrow> app \<Rightarrow> app" where
  "settle cl index w st =
     (case w of
        AwaitItem p \<Rightarrow> playSentence_resume cl index p (promise_settled p st)
      | _ \<Rightarrow> st)"

text \<open>
  Scenario D: one segment, the Gemini engine; play is pressed and the segment is
  loading; stop is pressed; then the synthesis resolves.
\<close>

definition scenarioD_loading :: "app \<times> wait" where
  "scenarioD_loading = startPlayback workingBackends (playingApp Google [js ''Hello.''])"

definition scenarioD_stopped :: app where
  "scenarioD_stopped = stopAudio (fst scenarioD_loading)"

definition scenarioD_resolved :: app where
  "scenarioD_resolved =
     settle (render (playingApp Google [js ''Hello.''])) 0 (snd scenarioD_loading)
       scenarioD_stopped"

text \<open>
  A failing synthesis on the play path: play is pressed, the speech call is refused and
  the failure is handled; then play is pressed again, with a backend that works.
\<close>

definition scenarioF_loading :: "app \<times> wait" where
  "scenarioF_loading = startPlayback failingBackends (playingApp Google [js ''Hello.''])"

definition scenarioF_failed :: app where
  "scenarioF_failed =
     settle (render (playingApp Google [js ''Hello.''])) 0 (snd scenarioF_loading)
       (fst scenarioF_loading)"

definition scenarioF_retry :: "app \<times> wait" where
  "scenarioF_retry =
     startPlayback workingBackends (togglePlay (render scenarioF_failed) scenarioF_failed)"

text \<open>
  Stop pressed twice. Two segments, the Gemini engine: play is pressed and segment 0 is
  loading; stop is pressed; play is pressed again while it is still loading; the
  synthesis resolves, for both calls of \<open>playSentence\<close>; stop is pressed; the \<open>ended\<close>
  event of the node that was stopped is dispatched.
\<close>

definition scenarioS_first :: "app \<times> wait" where
  "scenarioS_first =
     startPlayback workingBackends (playingApp Google [js ''Hello.'', js ''World.''])"

definition scenarioS_promise :: promise where
  "scenarioS_promise =
     \<lparr>p_id = 0, p_index = 0, p_origin = ByPlay,
      p_outcome = fst (processGeminiSentence workingBackends
        (render (playingApp Google [js ''Hello.'', js ''World.''])) 0)\<rparr>"

definition scenarioS_replay :: app where
  "scenarioS_replay =
     togglePlay (render (stopAudio (fst scenarioS_first))) (stopAudio (fst scenarioS_first))"

definition scenarioS_second :: "app \<times> wait" where
  "scenarioS_second = startPlayback workingBackends scenarioS_replay"

definition scenarioS_sounding :: app where
  "scenarioS_sounding =
     settle (render scenarioS_replay) 0 (snd scenarioS_second)
       (settle (render (playingApp Google [js ''Hello.'', js ''World.''])) 0
          (snd scenarioS_first) (fst scenarioS_second))"

definition scenarioS_stopped :: app where
  "scenarioS_stopped = stopAudio scenarioS_sounding"

definition scenarioS_ended :: app where
  "scenarioS_ended = source_ended (render scenarioS_replay) 3 scenarioS_stopped"

text \<open>
  The two ways a synthesis for an index is asked for, and a run of such requests for one
  index with nothing settling in between.
\<close>

datatype ensure_request = ViaPrefetch | ViaPlay

definition ensure :: "backends \<Rightarrow> closure \<Rightarrow> int \<Rightarrow> ensure_request \<Rightarrow> app \<Rightarrow> app" where
  "ensure be cl index r st =
     (case r of
        ViaPrefetch \<Rightarrow> prefetchGeminiSentence be cl index st
      | ViaPlay \<Rightarrow> fst (playSentence_begin be cl index st))"

definition ensure_all :: "backends \<Rightarrow> closure \<Rightarrow> int \<Rightarrow> ensure_request list \<Rightarrow> app \<Rightarrow> app" where
  "ensure_all be cl index rs st = fold (ensure be cl index) rs st"

section \<open>The cache is bounded and evicts the least recently used key\<close>

lemma keys_jsmap_delete: "map fst (jsmap_delete m k) = removeAll k (map fst m)"
  by (induction m) (auto simp: jsmap_delete_def)

lemma keys_jsmap_set_new: "\<not> jsmap_has m k \<Longrightarrow> map fst (jsmap_set m k v) = map fst m @ [k]"
  by (simp add: jsmap_set_def)

lemma not_has_after_delete: "\<not> jsmap_has (jsmap_delete m k) k"
  by (simp add: jsmap_has_def keys_jsmap_delete)

lemma lru_keys_get:
  "lru_keys (snd (lru_get c k)) =
     (if k \<in> set (lru_keys c) then removeAll k (lru_keys c) @ [k] else lru_keys c)"
proof (cases "jsmap_has (cache c) k")
  case False
  then show ?thesis by (simp add: lru_get_def lru_keys_def jsmap_has_def)
next
  case True
  then have "map_of (cache c) k \<noteq> None"
    by (simp add: jsmap_has_def map_of_eq_None_iff)
  then obtain v where v: "map_of (cache c) k = Some v" by auto
  with True show ?thesis
    by (simp add: lru_get_def lru_keys_def jsmap_get_def keys_jsmap_set_new not_has_after_delete
        keys_jsmap_delete jsmap_has_def)
qed

lemma lru_keys_set:
  "lru_keys (lru_set c k v) =
     (if k \<in> set (lru_keys c) then removeAll k (lru_keys c) @ [k]
      else if capacity c \<le> int (length (lru_keys c)) then
        (case lru_keys c of [] \<Rightarrow> [k] | f # _ \<Rightarrow> removeAll f (lru_keys c) @ [k])
      else lru_keys c @ [k])"
proof (cases "jsmap_has (cache c) k")
  case True
  then show ?thesis
    by (simp add: lru_set_def lru_keys_def Let_def keys_jsmap_set_new not_has_after_delete
        keys_jsmap_delete jsmap_has_def)
next
  case nh: False
  show ?thesis
  proof (cases "cache c")
    case Nil
    with nh show ?thesis
      apply (simp add: lru_set_def lru_keys_def Let_def)
      apply (simp add: jsmap_has_def jsmap_first_key_def jsmap_set_def)
      done
  next
    case (Cons e es)
    have "\<not> jsmap_has (jsmap_delete (cache c) (fst e)) k"
      using nh by (simp add: jsmap_has_def keys_jsmap_delete)
    with nh Cons show ?thesis
      by (auto simp add: lru_set_def lru_keys_def Let_def jsmap_first_key_def keys_jsmap_set_new
          keys_jsmap_delete jsmap_has_def)
  qed
qed


lemma capacity_get [simp]: "capacity (snd (lru_get c k)) = capacity c"
  by (simp add: lru_get_def split: option.splits)

lemma capacity_set [simp]: "capacity (lru_set c k v) = capacity c"
  by (simp add: lru_set_def Let_def)

lemma capacity_step [simp]: "capacity (cache_step c x) = capacity c"
  by (cases x) (auto simp: lru_get_def lru_set_def lru_delete_def lru_clear_def Let_def
      split: option.splits)

lemma capacity_run [simp]: "capacity (cache_run c xs) = capacity c"
  by (induction xs arbitrary: c) simp_all

lemma distinct_keys_step:
  "distinct (lru_keys c) \<Longrightarrow> distinct (lru_keys (cache_step c x))"
proof (cases x)
  case (CGet k)
  assume "distinct (lru_keys c)"
  then show ?thesis using CGet by (simp add: lru_keys_get distinct_removeAll)
next
  case (CSet k v)
  assume "distinct (lru_keys c)"
  then show ?thesis using CSet
    by (auto simp: lru_keys_set distinct_removeAll split: list.splits)
next
  case (CDelete k)
  assume "distinct (lru_keys c)"
  then show ?thesis using CDelete
    by (simp add: lru_delete_def lru_keys_def keys_jsmap_delete distinct_removeAll)
qed (simp_all add: lru_clear_def lru_keys_def)

lemma length_removeAll_less: "x \<in> set xs \<Longrightarrow> length (removeAll x xs) < length xs"
  by (induction xs) (auto simp: less_Suc_eq_le length_removeAll_less_eq)

lemma size_step:
  assumes "1 \<le> capacity c" "int (length (lru_keys c)) \<le> capacity c"
  shows "int (length (lru_keys (cache_step c x))) \<le> capacity c"
proof (cases x)
  case (CGet k)
  have "k \<in> set (lru_keys c) \<Longrightarrow> length (removeAll k (lru_keys c)) < length (lru_keys c)"
    by (rule length_removeAll_less)
  with assms CGet show ?thesis by (auto simp: lru_keys_get)
next
  case (CSet k v)
  have a: "k \<in> set (lru_keys c) \<Longrightarrow> length (removeAll k (lru_keys c)) < length (lru_keys c)"
    by (rule length_removeAll_less)
  have b: "\<And>f fs. lru_keys c = f # fs \<Longrightarrow> length (removeAll f (lru_keys c)) < length (lru_keys c)"
    by (rule length_removeAll_less) simp
  show ?thesis
  proof (cases "lru_keys c")
    case Nil
    with assms CSet show ?thesis by (simp add: lru_keys_set)
  next
    case (Cons f fs)
    with assms CSet a b [OF Cons] show ?thesis
      by (auto simp: lru_keys_set simp del: removeAll.simps)
  qed
next
  case (CDelete k)
  have "length (removeAll k (lru_keys c)) \<le> length (lru_keys c)"
    by (simp add: length_removeAll_less_eq)
  with assms CDelete show ?thesis
    by (simp add: lru_delete_def lru_keys_def keys_jsmap_delete)
qed (use assms in \<open>simp_all add: lru_clear_def lru_keys_def\<close>)

lemma size_run:
  "1 \<le> capacity c \<Longrightarrow> int (length (lru_keys c)) \<le> capacity c
   \<Longrightarrow> int (length (lru_keys (cache_run c xs))) \<le> capacity c"
proof (induction xs arbitrary: c)
  case Nil
  then show ?case by simp
next
  case (Cons x xs)
  from Cons.prems have "int (length (lru_keys (cache_step c x))) \<le> capacity (cache_step c x)"
    by (simp add: size_step)
  with Cons.IH [of "cache_step c x"] Cons.prems show ?case by simp
qed


lemma filter_neq_removeAll: "filter (\<lambda>x. x \<noteq> k) ys = removeAll k ys"
  by (induction ys) auto

lemma remdups_snoc: "remdups (t @ [k]) = removeAll k (remdups t) @ [k]"
proof -
  have "remdups (t @ [k]) = remdups (filter (\<lambda>x. x \<noteq> k) t) @ [k]"
    by (induction t) auto
  also have "remdups (filter (\<lambda>x. x \<noteq> k) t) = filter (\<lambda>x. x \<noteq> k) (remdups t)"
    by (rule remdups_filter)
  also have "filter (\<lambda>x. x \<noteq> k) (remdups t) = removeAll k (remdups t)"
    by (rule filter_neq_removeAll)
  finally show ?thesis .
qed

lemma lastn_split:
  "\<exists>P. r = P @ lastn n r \<and> (P = [] \<or> length (lastn n r) = n)"
proof (intro exI conjI)
  show "r = take (length r - n) r @ lastn n r" by (simp add: lastn_def)
  show "take (length r - n) r = [] \<or> length (lastn n r) = n"
    by (auto simp: lastn_def)
qed

lemma removeAll_distinct_length:
  "distinct L \<Longrightarrow> k \<in> set L \<Longrightarrow> Suc (length (removeAll k L)) = length L"
  by (induction L) (auto simp: removeAll_id)

lemma lastn_hit:
  assumes "distinct (P @ L)" "P = [] \<or> length L = n" "length L \<le> n" "k \<in> set L"
  shows "lastn n (removeAll k (P @ L) @ [k]) = removeAll k L @ [k]"
proof -
  from assms have kP: "k \<notin> set P" by auto
  have len: "Suc (length (removeAll k L)) = length L"
    using assms by (intro removeAll_distinct_length) auto
  from assms(2) show ?thesis
  proof
    assume "P = []"
    with len assms(3) show ?thesis by (simp add: lastn_def)
  next
    assume "length L = n"
    with kP len show ?thesis by (simp add: lastn_def removeAll_id)
  qed
qed

lemma lastn_miss:
  assumes "distinct (P @ L)" "P = [] \<or> length L = n" "length L \<le> n" "k \<notin> set L" "0 < n"
  shows "lastn n (removeAll k (P @ L) @ [k]) =
     (if n \<le> length L then (case L of [] \<Rightarrow> [k] | f # _ \<Rightarrow> removeAll f L @ [k])
      else L @ [k])"
proof (cases "n \<le> length L")
  case True
  with assms have ln: "length L = n" by auto
  with assms obtain f fs where L: "L = f # fs" by (cases L) auto
  with assms have "f \<notin> set fs" by auto
  then have "removeAll f L = fs" by (simp add: L removeAll_id)
  with True L ln assms(4) show ?thesis
    by (simp add: lastn_def removeAll_id)
next
  case False
  with assms have "P = []" by auto
  with False assms(4) show ?thesis by (simp add: lastn_def removeAll_id)
qed

lemma recency_run:
  assumes "1 \<le> capacity c"
    and "\<forall>x \<in> set xs. is_get_or_set x"
    and "lru_keys c = lastn (nat (capacity c)) (remdups t)"
  shows "lru_keys (cache_run c xs) = lastn (nat (capacity c)) (remdups (t @ accessed c xs))"
  using assms
proof (induction xs arbitrary: c t)
  case Nil
  then show ?case by simp
next
  case (Cons x xs)
  let ?n = "nat (capacity c)"
  let ?L = "lru_keys c"
  obtain P where P: "remdups t = P @ ?L" "P = [] \<or> length ?L = ?n"
    using lastn_split [of "remdups t" ?n] Cons.prems(3) by auto
  have d: "distinct (P @ ?L)" using P(1) distinct_remdups [of t] by simp
  have le: "length ?L \<le> ?n" by (simp add: Cons.prems(3) lastn_def)
  have npos: "0 < ?n" using Cons.prems(1) by simp
  have capn: "(capacity c \<le> int (length ?L)) = (?n \<le> length ?L)"
    using Cons.prems(1) by auto
  have hit: "removeAll k ?L @ [k] = lastn ?n (remdups (t @ [k]))" if "k \<in> set ?L" for k
    using lastn_hit [OF d P(2) le that] by (simp only: remdups_snoc P(1))
  have miss: "(if capacity c \<le> int (length ?L)
       then (case ?L of [] \<Rightarrow> [k] | f # _ \<Rightarrow> removeAll f ?L @ [k])
       else ?L @ [k]) = lastn ?n (remdups (t @ [k]))" if "k \<notin> set ?L" for k
    using lastn_miss [OF d P(2) le that npos] by (simp only: remdups_snoc P(1) capn)
  show ?case
  proof (cases x)
    case (CGet k)
    show ?thesis
    proof (cases "k \<in> set ?L")
      case True
      have "lru_keys (cache_step c x) = lastn ?n (remdups (t @ [k]))"
        using True hit by (simp add: CGet lru_keys_get)
      with Cons.IH [of "cache_step c x" "t @ [k]"] Cons.prems True CGet show ?thesis
        by (simp add: lru_has_def jsmap_has_def lru_keys_def)
    next
      case False
      have "lru_keys (cache_step c x) = lastn ?n (remdups t)"
        using False Cons.prems(3) by (simp add: CGet lru_keys_get)
      with Cons.IH [of "cache_step c x" t] Cons.prems False CGet show ?thesis
        by (simp add: lru_has_def jsmap_has_def lru_keys_def)
    qed
  next
    case (CSet k v)
    have "lru_keys (cache_step c x) = lastn ?n (remdups (t @ [k]))"
    proof (cases "k \<in> set ?L")
      case True
      then show ?thesis using hit by (simp add: CSet lru_keys_set)
    next
      case False
      then show ?thesis using miss [OF False] by (simp only: CSet lru_keys_set cache_step.simps if_False)
    qed
    with Cons.IH [of "cache_step c x" "t @ [k]"] Cons.prems CSet show ?thesis
      by simp
  qed (use Cons.prems in simp_all)
qed


lemma accessed_sets: "accessed c (map (\<lambda>k. CSet k (f k)) ks) = ks"
  by (induction ks arbitrary: c) simp_all

lemma lru_keys_new: "lru_keys (new_AudioLRUCache cap) = []"
  by (simp add: lru_keys_def new_AudioLRUCache_def)

text \<open>
  C2. A cache built with a capacity of at least one (the application builds it with 50)
  never holds more entries than its capacity, whatever calls are made on it. After any run
  of \<open>get\<close> and \<open>set\<close> calls its keys are exactly the most recently accessed
  \<open>capacity\<close> distinct keys, oldest first; so inserting more than \<open>capacity\<close>
  distinct keys leaves exactly the last \<open>capacity\<close> of them, and a \<open>set\<close> of a new
  key into a full cache drops the least recently accessed entry, the first one.
\<close>

theorem AudioLRUCache_bounded_lru:
  assumes "1 \<le> cap"
  shows "lru_size (cache_run (new_AudioLRUCache cap) calls) \<le> nat cap
    \<and> ((\<forall>x \<in> set calls. is_get_or_set x) \<longrightarrow>
         lru_keys (cache_run (new_AudioLRUCache cap) calls)
           = lastn (nat cap) (remdups (accessed (new_AudioLRUCache cap) calls)))
    \<and> (distinct ks \<and> nat cap < length ks \<longrightarrow>
         lru_size (cache_run (new_AudioLRUCache cap) (map (\<lambda>k. CSet k (f k)) ks)) = nat cap
         \<and> lru_keys (cache_run (new_AudioLRUCache cap) (map (\<lambda>k. CSet k (f k)) ks))
             = lastn (nat cap) ks)
    \<and> (capacity c = cap \<and> distinct (lru_keys c) \<and> lru_size c = nat cap \<and> \<not> lru_has c k \<longrightarrow>
         lru_keys (lru_set c k v) = tl (lru_keys c) @ [k])"
proof (intro conjI impI)
  let ?new = "new_AudioLRUCache cap :: 'a AudioLRUCache"
  have cap: "capacity ?new = cap" by (simp add: new_AudioLRUCache_def)
  have "int (length (lru_keys (cache_run ?new calls))) \<le> capacity ?new"
    using assms by (intro size_run) (simp_all add: cap lru_keys_new)
  then show "lru_size (cache_run ?new calls) \<le> nat cap"
    by (simp add: cap lru_size_def lru_keys_def)
next
  let ?new = "new_AudioLRUCache cap :: 'a AudioLRUCache"
  have cap: "capacity ?new = cap" by (simp add: new_AudioLRUCache_def)
  assume gs: "\<forall>x \<in> set calls. is_get_or_set x"
  have "lru_keys (cache_run ?new calls)
          = lastn (nat (capacity ?new)) (remdups ([] @ accessed ?new calls))"
    using assms gs by (intro recency_run) (simp_all add: cap lru_keys_new lastn_def)
  then show "lru_keys (cache_run ?new calls) = lastn (nat cap) (remdups (accessed ?new calls))"
    by (simp add: cap)
next
  let ?new = "new_AudioLRUCache cap :: 'b AudioLRUCache"
  let ?calls = "map (\<lambda>k. CSet k (f k)) ks"
  have cap: "capacity ?new = cap" by (simp add: new_AudioLRUCache_def)
  assume ks: "distinct ks \<and> nat cap < length ks"
  have "lru_keys (cache_run ?new ?calls)
          = lastn (nat (capacity ?new)) (remdups ([] @ accessed ?new ?calls))"
    using assms by (intro recency_run) (auto simp: cap lru_keys_new lastn_def)
  with ks have k: "lru_keys (cache_run ?new ?calls) = lastn (nat cap) ks"
    by (simp add: cap accessed_sets distinct_remdups_id)
  then show "lru_keys (cache_run ?new ?calls) = lastn (nat cap) ks" .
  from k have "length (lru_keys (cache_run ?new ?calls)) = length (lastn (nat cap) ks)" by simp
  with ks show "lru_size (cache_run ?new ?calls) = nat cap"
    by (simp add: lru_size_def lru_keys_def lastn_def)
next
  assume a: "capacity c = cap \<and> distinct (lru_keys c) \<and> lru_size c = nat cap \<and> \<not> lru_has c k"
  with assms obtain e es where c: "lru_keys c = e # es"
    by (cases "lru_keys c") (auto simp: lru_size_def lru_keys_def)
  with a have "e \<notin> set es" by simp
  then have r: "removeAll e (e # es) = es" by (simp add: removeAll_id)
  from a have kn: "k \<notin> set (lru_keys c)"
    by (simp add: lru_has_def jsmap_has_def lru_keys_def)
  from a assms have full: "capacity c \<le> int (length (lru_keys c))"
    by (simp add: lru_size_def lru_keys_def)
  have "lru_keys (lru_set c k v) = removeAll e (e # es) @ [k]"
    using kn full by (simp add: lru_keys_set c del: removeAll.simps)
  then show "lru_keys (lru_set c k v) = tl (lru_keys c) @ [k]"
    by (simp only: r c list.sel)
qed

theorem AudioLRUCache_bounded_lru_witness:
  "(1::int) \<le> 2
   \<and> lru_size (cache_run (new_AudioLRUCache 2) [CSet 0 (0::int), CGet 0, CSet 1 1, CSet 2 2]) \<le> 2
   \<and> lru_keys (cache_run (new_AudioLRUCache 2) [CSet 0 (0::int), CSet 1 1, CGet 0, CSet 2 2])
        = [0, 2]
   \<and> lru_keys (cache_run (new_AudioLRUCache 2) (map (\<lambda>k. CSet k k) [0, 1, 2])) = [1, 2]
   \<and> lru_keys (lru_set \<lparr>cache = [(0, 0), (1, 1 :: int)], capacity = 2\<rparr> 2 2) = [1, 2]"
proof -
  have h: "(1::int) \<le> 2" by simp
  have c: "capacity \<lparr>cache = [(0, 0), (1, 1 :: int)], capacity = 2\<rparr> = 2
           \<and> distinct (lru_keys \<lparr>cache = [(0, 0), (1, 1 :: int)], capacity = 2\<rparr>)
           \<and> lru_size \<lparr>cache = [(0, 0), (1, 1 :: int)], capacity = 2\<rparr> = nat 2
           \<and> \<not> lru_has \<lparr>cache = [(0, 0), (1, 1 :: int)], capacity = 2\<rparr> 2"
    by (simp add: lru_keys_def lru_size_def lru_has_def jsmap_has_def)
  have g: "\<forall>x \<in> set [CSet 0 (0::int), CSet 1 1, CGet 0, CSet 2 2]. is_get_or_set x" by simp
  have a: "accessed (new_AudioLRUCache 2) [CSet 0 (0::int), CSet 1 1, CGet 0, CSet 2 2]
             = [0, 1, 0, 2]"
    by (simp add: new_AudioLRUCache_def lru_set_def lru_get_def lru_has_def jsmap_has_def
        jsmap_get_def jsmap_set_def jsmap_delete_def jsmap_first_key_def Let_def)
  have d: "distinct [0, 1, 2 :: int] \<and> nat 2 < length [0, 1, 2 :: int]" by simp
  note t1 = AudioLRUCache_bounded_lru [OF h,
      of "[CSet 0 (0::int), CGet 0, CSet 1 1, CSet 2 2]" "[0, 1, 2]" "\<lambda>k. k"
         "\<lparr>cache = [(0, 0), (1, 1 :: int)], capacity = 2\<rparr>" 2 2]
  note t2 = AudioLRUCache_bounded_lru [OF h,
      of "[CSet 0 (0::int), CSet 1 1, CGet 0, CSet 2 2]" "[0, 1, 2]" "\<lambda>k. k"
         "\<lparr>cache = [(0, 0), (1, 1 :: int)], capacity = 2\<rparr>" 2 2]
  from t1 have 1: "lru_size (cache_run (new_AudioLRUCache 2)
       [CSet 0 (0::int), CGet 0, CSet 1 1, CSet 2 2]) \<le> 2"
    by simp
  from t2 g a have 2: "lru_keys (cache_run (new_AudioLRUCache 2)
       [CSet 0 (0::int), CSet 1 1, CGet 0, CSet 2 2]) = [0, 2]"
    by (simp add: lastn_def)
  from t1 d have 3: "lru_keys (cache_run (new_AudioLRUCache 2) (map (\<lambda>k. CSet k k) [0, 1, 2]))
       = [1, 2]"
    by (simp add: lastn_def)
  from t1 c have 4: "lru_keys (lru_set \<lparr>cache = [(0, 0), (1, 1 :: int)], capacity = 2\<rparr> 2 2)
       = [1, 2]"
    by (simp add: lru_keys_def)
  from h 1 2 3 4 show ?thesis by blast
qed

section \<open>Properties of playNext\<close>

text \<open>
  C5. At the last valid segment index, advancing stops playback and resets the index to
  0, which is in range; at an index with a successor in range, advancing changes only the
  index, by one. No other field is touched in either case.
\<close>

theorem playNext_end_of_sequence:
  "(0 < len \<and> currentIndex p = int len - 1 \<longrightarrow>
      playNext len p = p\<lparr>isPlaying := False, currentIndex := 0\<rparr>
      \<and> \<not> isPlaying (playNext len p)
      \<and> currentIndex (playNext len p) = 0
      \<and> 0 \<le> currentIndex (playNext len p) \<and> currentIndex (playNext len p) < int len
      \<and> isLoading (playNext len p) = isLoading p
      \<and> detectedEmotion (playNext len p) = detectedEmotion p)
   \<and> (currentIndex p + 1 < int len \<longrightarrow>
      playNext len p = p\<lparr>currentIndex := currentIndex p + 1\<rparr>
      \<and> isPlaying (playNext len p) = isPlaying p
      \<and> isLoading (playNext len p) = isLoading p
      \<and> detectedEmotion (playNext len p) = detectedEmotion p)"
  by (simp add: playNext_def Let_def)

theorem playNext_end_of_sequence_witness:
  "playNext 2 \<lparr>isPlaying = True, isLoading = False, currentIndex = 1, detectedEmotion = None\<rparr>
     = \<lparr>isPlaying = False, isLoading = False, currentIndex = 0, detectedEmotion = None\<rparr>
   \<and> playNext 2 \<lparr>isPlaying = True, isLoading = False, currentIndex = 0, detectedEmotion = None\<rparr>
     = \<lparr>isPlaying = True, isLoading = False, currentIndex = 1, detectedEmotion = None\<rparr>"
  using playNext_end_of_sequence
    [of 2 "\<lparr>isPlaying = True, isLoading = False, currentIndex = 1, detectedEmotion = None\<rparr>"]
    playNext_end_of_sequence
    [of 2 "\<lparr>isPlaying = True, isLoading = False, currentIndex = 0, detectedEmotion = None\<rparr>"]
  by simp


section \<open>detectEmotion never rejects\<close>

lemma dropWhile_rev_Nil:
  assumes "ys = [] \<or> \<not> P (hd ys)"
  shows "dropWhile P (rev ys) = [] \<longleftrightarrow> ys = []"
proof (cases ys)
  case Nil
  then show ?thesis by simp
next
  case (Cons a as)
  with assms have "\<not> P a" by simp
  with Cons show ?thesis by (auto simp: dropWhile_eq_Nil_conv)
qed

lemma trim_empty_iff: "trim s = [] \<longleftrightarrow> (\<forall>c \<in> set s. isWhiteSpace c)"
proof -
  have "dropWhile isWhiteSpace s = [] \<or> \<not> isWhiteSpace (hd (dropWhile isWhiteSpace s))"
    using hd_dropWhile [of isWhiteSpace s] by blast
  then have "dropWhile isWhiteSpace (rev (dropWhile isWhiteSpace s)) = []
        \<longleftrightarrow> dropWhile isWhiteSpace s = []"
    by (rule dropWhile_rev_Nil)
  then show ?thesis by (simp add: trim_def dropWhile_eq_Nil_conv)
qed

text \<open>
  C9, as stated, fails on a response that is not empty but blank: the call succeeds, the
  trimmed text is empty, and the result is the fallback label, not the trimmed text.
\<close>

theorem detectEmotion_blank_counterexample:
  "detectEmotion (fixedResponder (js '' '')) (js ''Hi.'') None [] = Inr (js ''Neutral'')
   \<and> detectEmotion (fixedResponder (js '' '')) (js ''Hi.'') None [] \<noteq> Inr (trim (js '' ''))"
  by (simp add: detectEmotion_def detectEmotion_try_def fixedResponder_def trim_def js_def
      isWhiteSpace_def)

text \<open>
  C9, amended. \<open>detectEmotion\<close> always resolves. It returns \<open>Neutral\<close> when the
  backend call rejects, when the response has no text, and when the text is empty or all
  white space; otherwise it returns the text trimmed, which is then not empty.
\<close>

theorem detectEmotion_always_resolves:
  "(\<exists>r. detectEmotion gen text previousText upcomingContext = Inr r)
   \<and> (\<forall>e. gen (emotionPrompt text previousText upcomingContext) = GenRejected e \<longrightarrow>
         detectEmotion gen text previousText upcomingContext = Inr (js ''Neutral''))
   \<and> (gen (emotionPrompt text previousText upcomingContext) = GenText None \<longrightarrow>
         detectEmotion gen text previousText upcomingContext = Inr (js ''Neutral''))
   \<and> (\<forall>t. gen (emotionPrompt text previousText upcomingContext) = GenText (Some t)
           \<and> (\<forall>c \<in> set t. isWhiteSpace c) \<longrightarrow>
         detectEmotion gen text previousText upcomingContext = Inr (js ''Neutral''))
   \<and> (\<forall>t. gen (emotionPrompt text previousText upcomingContext) = GenText (Some t)
           \<and> \<not> (\<forall>c \<in> set t. isWhiteSpace c) \<longrightarrow>
         detectEmotion gen text previousText upcomingContext = Inr (trim t)
         \<and> trim t \<noteq> [])"
  by (auto simp: detectEmotion_def detectEmotion_try_def trim_empty_iff
      split: gen_response.splits option.splits sum.splits)

theorem detectEmotion_always_resolves_witness:
  "detectEmotion (rejectingResponder (BackendError 503)) (js ''Hi.'') None [] = Inr (js ''Neutral'')
   \<and> detectEmotion silentResponder (js ''Hi.'') None [] = Inr (js ''Neutral'')
   \<and> detectEmotion (fixedResponder (js ''  '')) (js ''Hi.'') None [] = Inr (js ''Neutral'')
   \<and> detectEmotion (fixedResponder (js '' Angry '')) (js ''Hi.'') None [] = Inr (js ''Angry'')"
proof -
  let ?p = "emotionPrompt (js ''Hi.'') None []"
  have 1: "rejectingResponder (BackendError 503) ?p = GenRejected (BackendError 503)"
    by (simp add: rejectingResponder_def)
  have 2: "silentResponder ?p = GenText None" by (simp add: silentResponder_def)
  have 3: "fixedResponder (js ''  '') ?p = GenText (Some (js ''  ''))
           \<and> (\<forall>c \<in> set (js ''  ''). isWhiteSpace c)"
    by (simp add: fixedResponder_def js_def isWhiteSpace_def)
  have 4: "fixedResponder (js '' Angry '') ?p = GenText (Some (js '' Angry ''))
           \<and> \<not> (\<forall>c \<in> set (js '' Angry ''). isWhiteSpace c)"
    by (simp add: fixedResponder_def js_def isWhiteSpace_def)
  have t: "trim (js '' Angry '') = js ''Angry''"
    by (simp add: trim_def js_def isWhiteSpace_def)
  from 1 detectEmotion_always_resolves [of "rejectingResponder (BackendError 503)" "js ''Hi.''" None "[]"]
  have a: "detectEmotion (rejectingResponder (BackendError 503)) (js ''Hi.'') None [] = Inr (js ''Neutral'')"
    by blast
  from 2 detectEmotion_always_resolves [of silentResponder "js ''Hi.''" None "[]"]
  have b: "detectEmotion silentResponder (js ''Hi.'') None [] = Inr (js ''Neutral'')"
    by blast
  from 3 detectEmotion_always_resolves [of "fixedResponder (js ''  '')" "js ''Hi.''" None "[]"]
  have c: "detectEmotion (fixedResponder (js ''  '')) (js ''Hi.'') None [] = Inr (js ''Neutral'')"
    by blast
  from 4 detectEmotion_always_resolves [of "fixedResponder (js '' Angry '')" "js ''Hi.''" None "[]"]
  have "detectEmotion (fixedResponder (js '' Angry '')) (js ''Hi.'') None []
          = Inr (trim (js '' Angry ''))"
    by blast
  with t have d: "detectEmotion (fixedResponder (js '' Angry '')) (js ''Hi.'') None []
          = Inr (js ''Angry'')"
    by simp
  from a b c d show ?thesis by blast
qed

section \<open>decodeGeminiAudio\<close>

lemma length_fold_update:
  "length (fold (\<lambda>i c. c[i := f i]) is ch) = length ch"
  by (induction "is" arbitrary: ch) simp_all

lemma decode_samples_fold:
  "\<forall>i \<in> set is. 2 * i + 1 < length d \<Longrightarrow>
   decode_samples d is ch
     = Inr (fold (\<lambda>i c. c[i := real_of_int (int16_at d (2 * i)) / 32768]) is ch)"
proof (induction "is" arbitrary: ch)
  case Nil
  then show ?case by simp
next
  case (Cons i rest)
  then have "i * 2 + 1 < length d" by (simp add: mult.commute)
  moreover from this have "i * 2 + 2 \<le> length d" by simp
  ultimately show ?case using Cons
    by (simp add: getInt16_le_def int16_at_def Let_def mult.commute)
qed

lemma fold_update_upt_nth:
  "n \<le> length ch \<Longrightarrow> i < n \<Longrightarrow> fold (\<lambda>i c. c[i := f i]) [0..<n] ch ! i = f i"
proof (induction n)
  case 0
  then show ?case by simp
next
  case (Suc n)
  show ?case
  proof (cases "i = n")
    case True
    with Suc.prems show ?thesis by (simp add: length_fold_update)
  next
    case False
    with Suc show ?thesis by simp
  qed
qed

lemma int16_sample_range:
  "- 1 \<le> real_of_int (int16_at d k) / 32768 \<and> real_of_int (int16_at d k) / 32768 < 1"
proof -
  let ?w = "word_cat (d ! (k + 1)) (d ! k) :: 16 word"
  have "- (2 ^ (LENGTH(16) - 1)) \<le> sint ?w" by (rule sint_ge)
  then have lo: "- 32768 \<le> int16_at d k" by (simp add: int16_at_def)
  have "sint ?w < 2 ^ (LENGTH(16) - 1)" by (rule sint_lt)
  then have hi: "int16_at d k < 32768" by (simp add: int16_at_def)
  from lo hi show ?thesis by simp
qed

lemma decode_samples_ignores_tail:
  "\<forall>i \<in> set is. 2 * i + 1 < length d \<Longrightarrow>
   decode_samples (d @ [x]) is ch = decode_samples d is ch"
proof (induction "is" arbitrary: ch)
  case Nil
  then show ?case by simp
next
  case (Cons i rest)
  then have "i * 2 + 1 < length d" by (simp add: mult.commute)
  with Cons show ?case
    by (simp add: getInt16_le_def Let_def nth_append)
qed

text \<open>Under the Web Audio \<open>createBuffer\<close>, fewer than two bytes are rejected.\<close>

lemma decodeGeminiAudio_too_short:
  "length d < 2 \<Longrightarrow> decodeGeminiAudio webaudio_createBuffer d = Inl NotSupportedError"
  by (simp add: decodeGeminiAudio_def webaudio_createBuffer_def Let_def)

text \<open>
  C10, as stated, says that with an odd byte length the last sample stays 0. Three bytes
  give one sample, and it is written: here it is 16384 / 32768.
\<close>

theorem decodeGeminiAudio_odd_counterexample:
  "decodeGeminiAudio webaudio_createBuffer [0, 64, 255]
     = Inr \<lparr>sampleRate = 24000, numberOfChannels = 1, channelData = [1 / 2]\<rparr>
   \<and> odd (length [0, 64, 255 :: 8 word])
   \<and> last [1 / 2 :: real] \<noteq> 0"
  by (simp add: decodeGeminiAudio_def webaudio_createBuffer_def zeroBuffer_def getInt16_le_def
      word_cat_eq Let_def)

text \<open>
  C10, amended. When the audio context hands out its zero-filled buffer of
  \<open>floor(L / 2)\<close> frames, \<open>decodeGeminiAudio\<close> returns a mono buffer at 24000 Hz with
  exactly \<open>floor(L / 2)\<close> samples; every sample \<open>i\<close>, the last one included, is
  written with the little-endian signed 16-bit integer at byte offset \<open>2 * i\<close> divided
  by 32768 and lies in \<open>[-1, 1)\<close>; no read is out of bounds; a trailing odd byte does
  not change the result.
\<close>

theorem decodeGeminiAudio_samples:
  assumes "mkBuffer 1 (length d div 2) 24000 = Inr (zeroBuffer 1 (length d div 2) 24000)"
  shows "\<exists>b. decodeGeminiAudio mkBuffer d = Inr b
           \<and> sampleRate b = 24000 \<and> numberOfChannels b = 1
           \<and> length (channelData b) = length d div 2
           \<and> (\<forall>i < length d div 2.
                 getInt16_le d (2 * i) = Inr (int16_at d (2 * i))
                 \<and> channelData b ! i = real_of_int (int16_at d (2 * i)) / 32768
                 \<and> - 1 \<le> channelData b ! i \<and> channelData b ! i < 1)
           \<and> (even (length d) \<longrightarrow>
                 (\<forall>x. mkBuffer 1 (length (d @ [x]) div 2) 24000 = mkBuffer 1 (length d div 2) 24000
                      \<and> decodeGeminiAudio mkBuffer (d @ [x]) = Inr b))"
proof -
  let ?n = "length d div 2"
  let ?f = "\<lambda>i. real_of_int (int16_at d (2 * i)) / 32768"
  let ?ch = "fold (\<lambda>i c. c[i := ?f i]) [0..<?n] (replicate ?n 0)"
  let ?b = "\<lparr>sampleRate = 24000, numberOfChannels = 1, channelData = ?ch\<rparr>"
  have inb: "\<forall>i \<in> set [0..<?n]. 2 * i + 1 < length d" by auto
  have dec: "decode_samples d [0..<?n] (replicate ?n 0) = Inr ?ch"
    using decode_samples_fold [OF inb] .
  have res: "decodeGeminiAudio mkBuffer d = Inr ?b"
    using assms dec by (simp add: decodeGeminiAudio_def zeroBuffer_def Let_def)
  have len: "length ?ch = ?n" by (simp add: length_fold_update)
  have nth: "?ch ! i = ?f i" if "i < ?n" for i
    using that by (intro fold_update_upt_nth) simp_all
  have rd: "getInt16_le d (2 * i) = Inr (int16_at d (2 * i))" if "i < ?n" for i
    using that by (auto simp: getInt16_le_def int16_at_def)
  have tail: "decodeGeminiAudio mkBuffer (d @ [x]) = Inr ?b"
    and same: "mkBuffer 1 (length (d @ [x]) div 2) 24000 = mkBuffer 1 ?n 24000"
    if "even (length d)" for x
  proof -
    from that have n: "length (d @ [x]) div 2 = ?n" by auto
    then show "mkBuffer 1 (length (d @ [x]) div 2) 24000 = mkBuffer 1 ?n 24000" by simp
    have "decode_samples (d @ [x]) [0..<?n] (replicate ?n 0) = Inr ?ch"
      using decode_samples_ignores_tail [OF inb] dec by simp
    with assms n show "decodeGeminiAudio mkBuffer (d @ [x]) = Inr ?b"
      by (simp add: decodeGeminiAudio_def zeroBuffer_def Let_def del: length_append)
  qed
  have rng: "- 1 \<le> ?ch ! i \<and> ?ch ! i < 1" if "i < ?n" for i
    unfolding nth [OF that] by (rule int16_sample_range)
  have sel: "sampleRate ?b = 24000" "numberOfChannels ?b = 1" "channelData ?b = ?ch"
    by simp_all
  show ?thesis
    unfolding res
    by (intro exI [of _ ?b] conjI allI impI; (unfold sel)?)
      (simp_all only: len nth rd tail same refl int16_sample_range)
qed

theorem decodeGeminiAudio_samples_witness:
  "webaudio_createBuffer 1 (length [0, 64, 0, 128 :: 8 word] div 2) 24000
     = Inr (zeroBuffer 1 (length [0, 64, 0, 128 :: 8 word] div 2) 24000)
   \<and> (\<exists>b. decodeGeminiAudio webaudio_createBuffer [0, 64, 0, 128] = Inr b
          \<and> sampleRate b = 24000 \<and> numberOfChannels b = 1
          \<and> length (channelData b) = 2
          \<and> channelData b ! 0 = 1 / 2 \<and> channelData b ! 1 = - 1
          \<and> decodeGeminiAudio webaudio_createBuffer [0, 64, 0, 128, 255] = Inr b)"
proof -
  let ?d = "[0, 64, 0, 128 :: 8 word]"
  have h: "webaudio_createBuffer 1 (length ?d div 2) 24000
             = Inr (zeroBuffer 1 (length ?d div 2) 24000)"
    by (simp add: webaudio_createBuffer_def)
  have v0: "real_of_int (int16_at ?d (2 * 0)) / 32768 = 1 / 2"
    by (simp add: int16_at_def word_cat_eq)
  have v1: "real_of_int (int16_at ?d (2 * 1)) / 32768 = - 1"
    by (simp add: int16_at_def word_cat_eq)
  from decodeGeminiAudio_samples [of webaudio_createBuffer ?d, OF h] obtain b where
    b: "decodeGeminiAudio webaudio_createBuffer ?d = Inr b"
       "sampleRate b = 24000" "numberOfChannels b = 1"
       "length (channelData b) = length ?d div 2"
       "\<forall>i < length ?d div 2. getInt16_le ?d (2 * i) = Inr (int16_at ?d (2 * i))
           \<and> channelData b ! i = real_of_int (int16_at ?d (2 * i)) / 32768
           \<and> - 1 \<le> channelData b ! i \<and> channelData b ! i < 1"
       "even (length ?d) \<longrightarrow>
          (\<forall>x. webaudio_createBuffer 1 (length (?d @ [x]) div 2) 24000
                  = webaudio_createBuffer 1 (length ?d div 2) 24000
               \<and> decodeGeminiAudio webaudio_createBuffer (?d @ [x]) = Inr b)"
    by blast
  from b(5) have "channelData b ! 0 = real_of_int (int16_at ?d (2 * 0)) / 32768"
    by simp
  with v0 have c0: "channelData b ! 0 = 1 / 2" by simp
  from b(5) have "channelData b ! 1 = real_of_int (int16_at ?d (2 * 1)) / 32768"
    by simp
  with v1 have c1: "channelData b ! 1 = - 1" by simp
  from b(6) have "decodeGeminiAudio webaudio_createBuffer (?d @ [255]) = Inr b" by simp
  then have tl: "decodeGeminiAudio webaudio_createBuffer [0, 64, 0, 128, 255] = Inr b" by simp
  from b(4) have len: "length (channelData b) = 2" by simp
  from h b(1-3) len c0 c1 tl show ?thesis by blast
qed


section \<open>stopAudio\<close>

text \<open>
  The synchronous body of \<open>stopAudio\<close>: the speech queue is emptied, the audio element
  and the source node the handles refer to no longer sound, both handles are cleared; the
  playback flags and the tone are reset and every other field is kept. Stopping a node
  that was sounding queues its \<open>ended\<close> event.
\<close>

lemma stopAudio_body:
  "utterances (device (stopAudio st)) = []"
  "audioRef st = Some a \<Longrightarrow> a \<notin> set (audioPlaying (device (stopAudio st)))"
  "sourceNodeRef st = Some n \<Longrightarrow> n \<notin> set (sourcePlaying (device (stopAudio st)))"
  "sourceNodeRef st = Some n \<Longrightarrow> n \<in> set (sourcePlaying (device st))
     \<Longrightarrow> n \<in> set (pendingEnded (device (stopAudio st)))"
  "audioRef (stopAudio st) = None" "sourceNodeRef (stopAudio st) = None"
  "activations (device (stopAudio st)) = activations (device st)"
  "playback (stopAudio st)
     = (playback st)\<lparr>isPlaying := False, isLoading := False, detectedEmotion := None\<rparr>"
  "textSegments (stopAudio st) = textSegments st" "settings (stopAudio st) = settings st"
  "activeIndexRef (stopAudio st) = activeIndexRef st"
  "audioCache (stopAudio st) = audioCache st" "nextId (stopAudio st) = nextId st"
  "producerCalls (stopAudio st) = producerCalls st" "requests (stopAudio st) = requests st"
  "alerts (stopAudio st) = alerts st"
  by (simp_all add: stopAudio_def synth_cancel_def audio_pause_def source_stop_def Let_def
      split: option.splits)

lemma stopAudio_twice: "stopAudio (stopAudio st) = stopAudio st"
  by (simp add: stopAudio_def synth_cancel_def audio_pause_def source_stop_def Let_def
      split: option.splits)


section \<open>Blank segments and indices out of range\<close>

lemma processGeminiSentence_blank:
  "0 \<le> index \<Longrightarrow> index < int (length (c_textSegments cl))
   \<Longrightarrow> trim (c_textSegments cl ! nat index) = []
   \<Longrightarrow> processGeminiSentence be cl index = (Inl EmptyText, [])"
  by (simp add: processGeminiSentence_def Let_def)

text \<open>
  C6. Playing a segment in range whose text is empty or all white space invokes no
  producer, makes no backend request and leaves the device and the cache alone: its whole
  effect is \<open>playNext\<close>, which from the segment's own index moves to the next index, or
  stops at index 0 after the last one. The producer itself makes no request for such a
  text. An index outside \<open>[0, length)\<close> leaves the state unchanged.
\<close>

theorem playSentence_skips_blank_segments:
  "(0 \<le> index \<and> index < int (length (c_textSegments cl))
      \<and> (\<forall>c \<in> set (c_textSegments cl ! nat index). isWhiteSpace c) \<longrightarrow>
        playSentence_begin be cl index st
          = (st\<lparr>playback := playNext (length (c_textSegments cl)) (playback st)\<rparr>, NoWait)
        \<and> producerCalls (fst (playSentence_begin be cl index st)) = producerCalls st
        \<and> requests (fst (playSentence_begin be cl index st)) = requests st
        \<and> device (fst (playSentence_begin be cl index st)) = device st
        \<and> audioCache (fst (playSentence_begin be cl index st)) = audioCache st
        \<and> (currentIndex (playback st) = index \<longrightarrow>
             (index + 1 < int (length (c_textSegments cl)) \<longrightarrow>
                playback (fst (playSentence_begin be cl index st))
                  = (playback st)\<lparr>currentIndex := index + 1\<rparr>)
             \<and> (index + 1 = int (length (c_textSegments cl)) \<longrightarrow>
                playback (fst (playSentence_begin be cl index st))
                  = (playback st)\<lparr>isPlaying := False, currentIndex := 0\<rparr>))
        \<and> processGeminiSentence be cl index = (Inl EmptyText, []))
   \<and> (index < 0 \<or> int (length (c_textSegments cl)) \<le> index \<longrightarrow>
        playSentence_begin be cl index st = (st, NoWait))"
proof -
  have B: "index < 0 \<or> int (length (c_textSegments cl)) \<le> index \<longrightarrow>
        playSentence_begin be cl index st = (st, NoWait)"
    by (auto simp: playSentence_begin_def Let_def)
  have A: "0 \<le> index \<and> index < int (length (c_textSegments cl))
      \<and> (\<forall>c \<in> set (c_textSegments cl ! nat index). isWhiteSpace c) \<longrightarrow>
        playSentence_begin be cl index st
          = (st\<lparr>playback := playNext (length (c_textSegments cl)) (playback st)\<rparr>, NoWait)
        \<and> producerCalls (fst (playSentence_begin be cl index st)) = producerCalls st
        \<and> requests (fst (playSentence_begin be cl index st)) = requests st
        \<and> device (fst (playSentence_begin be cl index st)) = device st
        \<and> audioCache (fst (playSentence_begin be cl index st)) = audioCache st
        \<and> (currentIndex (playback st) = index \<longrightarrow>
             (index + 1 < int (length (c_textSegments cl)) \<longrightarrow>
                playback (fst (playSentence_begin be cl index st))
                  = (playback st)\<lparr>currentIndex := index + 1\<rparr>)
             \<and> (index + 1 = int (length (c_textSegments cl)) \<longrightarrow>
                playback (fst (playSentence_begin be cl index st))
                  = (playback st)\<lparr>isPlaying := False, currentIndex := 0\<rparr>))
        \<and> processGeminiSentence be cl index = (Inl EmptyText, [])"
  proof (rule impI)
    assume a: "0 \<le> index \<and> index < int (length (c_textSegments cl))
      \<and> (\<forall>c \<in> set (c_textSegments cl ! nat index). isWhiteSpace c)"
    then have t: "trim (c_textSegments cl ! nat index) = []" by (simp add: trim_empty_iff)
    with a have b: "playSentence_begin be cl index st
          = (st\<lparr>playback := playNext (length (c_textSegments cl)) (playback st)\<rparr>, NoWait)"
      by (simp add: playSentence_begin_def Let_def)
    from a t have p: "processGeminiSentence be cl index = (Inl EmptyText, [])"
      by (simp add: processGeminiSentence_blank)
    from a have n: "currentIndex (playback st) = index \<longrightarrow>
             (index + 1 < int (length (c_textSegments cl)) \<longrightarrow>
                playback (fst (playSentence_begin be cl index st))
                  = (playback st)\<lparr>currentIndex := index + 1\<rparr>)
             \<and> (index + 1 = int (length (c_textSegments cl)) \<longrightarrow>
                playback (fst (playSentence_begin be cl index st))
                  = (playback st)\<lparr>isPlaying := False, currentIndex := 0\<rparr>)"
      by (simp add: b playNext_def Let_def)
    show "playSentence_begin be cl index st
          = (st\<lparr>playback := playNext (length (c_textSegments cl)) (playback st)\<rparr>, NoWait)
        \<and> producerCalls (fst (playSentence_begin be cl index st)) = producerCalls st
        \<and> requests (fst (playSentence_begin be cl index st)) = requests st
        \<and> device (fst (playSentence_begin be cl index st)) = device st
        \<and> audioCache (fst (playSentence_begin be cl index st)) = audioCache st
        \<and> (currentIndex (playback st) = index \<longrightarrow>
             (index + 1 < int (length (c_textSegments cl)) \<longrightarrow>
                playback (fst (playSentence_begin be cl index st))
                  = (playback st)\<lparr>currentIndex := index + 1\<rparr>)
             \<and> (index + 1 = int (length (c_textSegments cl)) \<longrightarrow>
                playback (fst (playSentence_begin be cl index st))
                  = (playback st)\<lparr>isPlaying := False, currentIndex := 0\<rparr>))
        \<and> processGeminiSentence be cl index = (Inl EmptyText, [])"
      using n p by (simp add: b)
  qed
  from A B show ?thesis by (rule conjI)
qed


lemma playingApp_eq:
  "segs \<noteq> [] \<Longrightarrow>
   playingApp eng segs
     = initialApp\<lparr>textSegments := segs,
                  settings := (settings initialApp)\<lparr>engine := eng\<rparr>,
                  playback := \<lparr>isPlaying = True, isLoading = False, currentIndex = 0,
                               detectedEmotion = None\<rparr>\<rparr>"
  by (simp add: playingApp_def togglePlay_def render_def handleFileUpload_def stopAudio_def
      initialApp_def setSettings_def settings_effect_def synth_cancel_def lru_clear_def
      new_AudioLRUCache_def Let_def)

theorem playSentence_skips_blank_segments_witness:
  "playSentence_begin workingBackends
       (render (playingApp Google [js '' '', js ''Real text.'']))
       0 (playingApp Google [js '' '', js ''Real text.''])
     = ((playingApp Google [js '' '', js ''Real text.''])
          \<lparr>playback := \<lparr>isPlaying = True, isLoading = False, currentIndex = 1,
                        detectedEmotion = None\<rparr>\<rparr>, NoWait)
   \<and> playSentence_begin workingBackends
       (render (playingApp Google [js '' '', js ''Real text.'']))
       2 (playingApp Google [js '' '', js ''Real text.''])
     = (playingApp Google [js '' '', js ''Real text.''], NoWait)"
proof -
  let ?st = "playingApp Google [js '' '', js ''Real text.'']"
  have seg: "c_textSegments (render ?st) = [js '' '', js ''Real text.'']"
    by (simp add: playingApp_eq render_def)
  have pb: "playback ?st = \<lparr>isPlaying = True, isLoading = False, currentIndex = 0,
                        detectedEmotion = None\<rparr>"
    by (simp add: playingApp_eq)
  have h0: "(0::int) \<le> 0 \<and> 0 < int (length (c_textSegments (render ?st)))
      \<and> (\<forall>c \<in> set (c_textSegments (render ?st) ! nat 0). isWhiteSpace c)"
    unfolding seg by (simp add: js_def isWhiteSpace_def)
  have h2: "(2::int) < 0 \<or> int (length (c_textSegments (render ?st))) \<le> 2"
    by (simp add: seg)
  from playSentence_skips_blank_segments [of 0 "render ?st" workingBackends ?st] h0
  have "playSentence_begin workingBackends (render ?st) 0 ?st
          = (?st\<lparr>playback := playNext (length (c_textSegments (render ?st))) (playback ?st)\<rparr>,
             NoWait)"
    by blast
  then have a: "playSentence_begin workingBackends (render ?st) 0 ?st
     = (?st\<lparr>playback := \<lparr>isPlaying = True, isLoading = False, currentIndex = 1,
                        detectedEmotion = None\<rparr>\<rparr>, NoWait)"
    by (simp add: seg pb playNext_def)
  from playSentence_skips_blank_segments [of 2 "render ?st" workingBackends ?st] h2
  have b: "playSentence_begin workingBackends (render ?st) 2 ?st = (?st, NoWait)"
    by blast
  from a b show ?thesis by blast
qed


section \<open>A change of engine or voice clears the cache\<close>

lemma processGeminiSentence_settings:
  assumes "c_textSegments cl = c_textSegments cl'"
    and "googleVoice (c_settings cl) = googleVoice (c_settings cl')"
  shows "processGeminiSentence be cl i = processGeminiSentence be cl' i"
  unfolding processGeminiSentence_def assms by (rule refl)

text \<open>
  C8. When the engine or the Gemini voice changes, the cache is empty afterwards: no
  index is present and \<open>get\<close> finds nothing. A change to neither keeps the cache. The
  Gemini voice is the only setting the cached producer reads: two closures with the same
  segments and the same Gemini voice produce the same outcome and the same requests.
\<close>

theorem settings_change_clears_cache:
  "(engine new \<noteq> engine (settings st) \<or> googleVoice new \<noteq> googleVoice (settings st) \<longrightarrow>
      cache (audioCache (setSettings new st)) = []
      \<and> (\<forall>i. \<not> lru_has (audioCache (setSettings new st)) i
              \<and> fst (lru_get (audioCache (setSettings new st)) i) = None))
   \<and> (engine new = engine (settings st) \<and> googleVoice new = googleVoice (settings st) \<longrightarrow>
      audioCache (setSettings new st) = audioCache st)
   \<and> settings (setSettings new st) = new
   \<and> (c_textSegments cl = c_textSegments cl'
        \<and> googleVoice (c_settings cl) = googleVoice (c_settings cl') \<longrightarrow>
      processGeminiSentence be cl i = processGeminiSentence be cl' i)"
proof -
  have 1: "engine new \<noteq> engine (settings st) \<or> googleVoice new \<noteq> googleVoice (settings st) \<longrightarrow>
      cache (audioCache (setSettings new st)) = []
      \<and> (\<forall>i. \<not> lru_has (audioCache (setSettings new st)) i
              \<and> fst (lru_get (audioCache (setSettings new st)) i) = None)"
    by (auto simp: setSettings_def settings_effect_def lru_clear_def lru_has_def lru_get_def
        jsmap_has_def)
  have 2: "engine new = engine (settings st) \<and> googleVoice new = googleVoice (settings st) \<longrightarrow>
      audioCache (setSettings new st) = audioCache st"
    by (simp add: setSettings_def settings_effect_def)
  have 3: "settings (setSettings new st) = new"
    by (simp add: setSettings_def settings_effect_def)
  have 4: "c_textSegments cl = c_textSegments cl'
        \<and> googleVoice (c_settings cl) = googleVoice (c_settings cl') \<longrightarrow>
      processGeminiSentence be cl i = processGeminiSentence be cl' i"
    using processGeminiSentence_settings by blast
  from 1 2 3 4 show ?thesis by blast
qed


theorem settings_change_clears_cache_witness:
  "cache (audioCache (setSettings ((settings initialApp)\<lparr>googleVoice := js ''Kore''\<rparr>)
      (initialApp\<lparr>audioCache := \<lparr>cache = [(0, \<lparr>p_id = 0, p_index = 0, p_origin = ByPlay,
          p_outcome = Inl NoAudioReturned\<rparr>)], capacity = 50\<rparr>\<rparr>))) = []
   \<and> cache (audioCache (setSettings ((settings initialApp)\<lparr>engine := Google\<rparr>)
      (initialApp\<lparr>audioCache := \<lparr>cache = [(0, \<lparr>p_id = 0, p_index = 0, p_origin = ByPlay,
          p_outcome = Inl NoAudioReturned\<rparr>)], capacity = 50\<rparr>\<rparr>))) = []
   \<and> cache (audioCache (setSettings ((settings initialApp)\<lparr>darkMode := True\<rparr>)
      (initialApp\<lparr>audioCache := \<lparr>cache = [(0, \<lparr>p_id = 0, p_index = 0, p_origin = ByPlay,
          p_outcome = Inl NoAudioReturned\<rparr>)], capacity = 50\<rparr>\<rparr>)))
       = [(0, \<lparr>p_id = 0, p_index = 0, p_origin = ByPlay, p_outcome = Inl NoAudioReturned\<rparr>)]"
proof -
  let ?st = "initialApp\<lparr>audioCache := \<lparr>cache = [(0, \<lparr>p_id = 0, p_index = 0, p_origin = ByPlay,
          p_outcome = Inl NoAudioReturned\<rparr>)], capacity = 50\<rparr>\<rparr>"
  have v: "engine ((settings initialApp)\<lparr>googleVoice := js ''Kore''\<rparr>) \<noteq> engine (settings ?st)
      \<or> googleVoice ((settings initialApp)\<lparr>googleVoice := js ''Kore''\<rparr>)
          \<noteq> googleVoice (settings ?st)"
    by (simp add: initialApp_def js_def)
  have e: "engine ((settings initialApp)\<lparr>engine := Google\<rparr>) \<noteq> engine (settings ?st)
      \<or> googleVoice ((settings initialApp)\<lparr>engine := Google\<rparr>) \<noteq> googleVoice (settings ?st)"
    by (simp add: initialApp_def)
  have d: "engine ((settings initialApp)\<lparr>darkMode := True\<rparr>) = engine (settings ?st)
      \<and> googleVoice ((settings initialApp)\<lparr>darkMode := True\<rparr>) = googleVoice (settings ?st)"
    by simp
  from settings_change_clears_cache
    [of "(settings initialApp)\<lparr>googleVoice := js ''Kore''\<rparr>" ?st] v
  have 1: "cache (audioCache (setSettings ((settings initialApp)\<lparr>googleVoice := js ''Kore''\<rparr>)
      ?st)) = []"
    by blast
  from settings_change_clears_cache [of "(settings initialApp)\<lparr>engine := Google\<rparr>" ?st] e
  have 2: "cache (audioCache (setSettings ((settings initialApp)\<lparr>engine := Google\<rparr>) ?st)) = []"
    by blast
  from settings_change_clears_cache [of "(settings initialApp)\<lparr>darkMode := True\<rparr>" ?st] d
  have "audioCache (setSettings ((settings initialApp)\<lparr>darkMode := True\<rparr>) ?st)
          = audioCache ?st"
    by blast
  then have 3: "cache (audioCache (setSettings ((settings initialApp)\<lparr>darkMode := True\<rparr>) ?st))
       = [(0, \<lparr>p_id = 0, p_index = 0, p_origin = ByPlay, p_outcome = Inl NoAudioReturned\<rparr>)]"
    by simp
  from 1 2 3 show ?thesis by blast
qed


section \<open>Results that settle late, and failures on the play path\<close>

lemma processGeminiSentence_hello:
  assumes "c_textSegments cl = [js ''Hello.'']" "googleVoice (c_settings cl) = js ''Puck''"
  shows "processGeminiSentence workingBackends cl 0
     = (Inr \<lparr>buffer = \<lparr>sampleRate = 24000, numberOfChannels = 1, channelData = [1 / 2]\<rparr>,
             emotion = js ''Calm''\<rparr>,
        [EmotionRequest (emotionPrompt (js ''Hello.'') None []),
         SpeechRequest (ttsPrompt (js ''Hello.'') (js ''Calm'')) (js ''Puck'')])"
proof -
  have t: "trim (js ''Hello.'') \<noteq> []" by (simp add: trim_def js_def isWhiteSpace_def)
  have e: "detectEmotion (generateEmotion workingBackends) (js ''Hello.'') None []
             = Inr (js ''Calm'')"
    by (simp add: detectEmotion_def detectEmotion_try_def workingBackends_def
        fixedResponder_def trim_def js_def isWhiteSpace_def)
  have g: "generateGeminiSpeech (generateSpeech workingBackends) (js ''Hello.'') (js ''Puck'')
             (js ''Calm'') = Inr (Some [0, 64])"
    by (simp add: generateGeminiSpeech_def workingBackends_def fixedSpeech_def js_def)
  have d: "decodeGeminiAudio (createBuffer workingBackends) [0, 64]
             = Inr \<lparr>sampleRate = 24000, numberOfChannels = 1, channelData = [1 / 2]\<rparr>"
    by (simp add: decodeGeminiAudio_def workingBackends_def webaudio_createBuffer_def
        zeroBuffer_def getInt16_le_def word_cat_eq Let_def)
  have p: "js ''Puck'' \<noteq> []" by (simp add: js_def)
  show ?thesis
    by (simp add: processGeminiSentence_def assms t e g d p Let_def)
qed


lemma prefetch_out_of_range:
  "int (length (c_textSegments cl)) \<le> index \<Longrightarrow> prefetchGeminiSentence be cl index st = st"
  by (simp add: prefetchGeminiSentence_def)

lemma playSentence_google_miss_last:
  assumes "\<not> lru_has (audioCache st) index"
    and "int (length (c_textSegments cl)) \<le> index + 1"
    and "processGeminiSentence be cl index = (outcome, reqs)"
  shows "playSentence_google be cl index st
     = (st\<lparr>playback := (playback st)\<lparr>isLoading := True\<rparr>,
           nextId := nextId st + 1,
           producerCalls := producerCalls st @ [index],
           requests := requests st @ reqs,
           audioCache := lru_set (audioCache st) index
             \<lparr>p_id = nextId st, p_index = index, p_origin = ByPlay, p_outcome = outcome\<rparr>\<rparr>,
        AwaitItem \<lparr>p_id = nextId st, p_index = index, p_origin = ByPlay, p_outcome = outcome\<rparr>)"
proof -
  have g: "lru_get (audioCache st) index = (None, audioCache st)"
    using assms(1) by (simp add: lru_get_def lru_has_def)
  have o: "int (length (c_textSegments cl)) \<le> index + 2" using assms(2) by simp
  show ?thesis
    by (simp add: playSentence_google_def g invokeProducer_def assms(3)
        prefetch_out_of_range [OF assms(2)] prefetch_out_of_range [OF o])
qed

lemma playSentence_google_hit_last:
  assumes "lru_get (audioCache st) index = (Some p, c')"
    and "int (length (c_textSegments cl)) \<le> index + 1"
  shows "playSentence_google be cl index st = (st\<lparr>audioCache := c'\<rparr>, AwaitItem p)"
proof -
  have o: "int (length (c_textSegments cl)) \<le> index + 2" using assms(2) by simp
  show ?thesis
    by (simp add: playSentence_google_def assms(1)
        prefetch_out_of_range [OF assms(2)] prefetch_out_of_range [OF o])
qed

lemma stop_previous_silent:
  "utterances (device st) = [] \<Longrightarrow> audioRef st = None \<Longrightarrow> sourceNodeRef st = None
   \<Longrightarrow> stop_previous st = st"
  by (simp add: stop_previous_def synth_cancel_def)

lemma playSentence_begin_google:
  assumes "engine (c_settings cl) = Google" "0 \<le> index"
    and "index < int (length (c_textSegments cl))"
    and "trim (c_textSegments cl ! nat index) \<noteq> []"
  shows "playSentence_begin be cl index st = playSentence_google be cl index (stop_previous st)"
  using assms by (simp add: playSentence_begin_def Let_def)

lemma startPlayback_playing:
  assumes "isPlaying (playback st)"
  shows "startPlayback be st
     = playSentence_begin be (render st) (currentIndex (playback st))
         (st\<lparr>activeIndexRef := currentIndex (playback st)\<rparr>)"
  using assms
  by (simp add: startPlayback_def playback_effect_def timer_callback_def render_def)


lemma playingApp_fields:
  assumes "segs \<noteq> []"
  shows "textSegments (playingApp eng segs) = segs"
    and "engine (settings (playingApp eng segs)) = eng"
    and "googleVoice (settings (playingApp eng segs)) = js ''Puck''"
    and "playback (playingApp eng segs)
          = \<lparr>isPlaying = True, isLoading = False, currentIndex = 0, detectedEmotion = None\<rparr>"
    and "audioCache (playingApp eng segs) = \<lparr>cache = [], capacity = 50\<rparr>"
    and "audioRef (playingApp eng segs) = None"
    and "sourceNodeRef (playingApp eng segs) = None"
    and "device (playingApp eng segs)
          = \<lparr>utterances = [], audioPlaying = [], sourcePlaying = [], activations = 0,
             pendingEnded = []\<rparr>"
    and "nextId (playingApp eng segs) = 0"
    and "producerCalls (playingApp eng segs) = []"
    and "requests (playingApp eng segs) = []"
    and "activeIndexRef (playingApp eng segs) = - 1"
  by (simp_all add: playingApp_eq [OF assms] initialApp_def new_AudioLRUCache_def)

lemma hello_not_blank: "trim (js ''Hello.'') \<noteq> []"
  by (simp add: trim_def js_def isWhiteSpace_def)

lemma startPlayback_hello:
  assumes "processGeminiSentence be (render (playingApp Google [js ''Hello.''])) 0
             = (outcome, reqs)"
  shows "startPlayback be (playingApp Google [js ''Hello.''])
     = ((playingApp Google [js ''Hello.''])
          \<lparr>activeIndexRef := 0,
           playback := \<lparr>isPlaying = True, isLoading = True, currentIndex = 0,
                        detectedEmotion = None\<rparr>,
           nextId := 1, producerCalls := [0], requests := reqs,
           audioCache := \<lparr>cache = [(0, \<lparr>p_id = 0, p_index = 0, p_origin = ByPlay,
                                        p_outcome = outcome\<rparr>)], capacity = 50\<rparr>\<rparr>,
        AwaitItem \<lparr>p_id = 0, p_index = 0, p_origin = ByPlay, p_outcome = outcome\<rparr>)"
proof -
  let ?s0 = "playingApp Google [js ''Hello.'']"
  let ?cl = "render ?s0"
  let ?s1 = "?s0\<lparr>activeIndexRef := 0\<rparr>"
  have ne: "[js ''Hello.''] \<noteq> []" by simp
  note f = playingApp_fields [OF ne, of Google]
  have cl: "c_textSegments ?cl = [js ''Hello.'']" "engine (c_settings ?cl) = Google"
    by (simp_all add: render_def f)
  have 1: "startPlayback be ?s0 = playSentence_begin be ?cl 0 ?s1"
    using startPlayback_playing [of ?s0 be] by (simp add: f)
  have 2: "playSentence_begin be ?cl 0 ?s1 = playSentence_google be ?cl 0 (stop_previous ?s1)"
    by (rule playSentence_begin_google) (simp_all add: cl hello_not_blank)
  have 3: "stop_previous ?s1 = ?s1"
    by (rule stop_previous_silent) (simp_all add: f)
  have 4: "\<not> lru_has (audioCache ?s1) 0" by (simp add: f lru_has_def jsmap_has_def)
  have 5: "int (length (c_textSegments ?cl)) \<le> 0 + 1" by (simp add: cl)
  have 6: "lru_set (audioCache ?s1) 0 v = \<lparr>cache = [(0, v)], capacity = 50\<rparr>" for v
    by (simp add: f lru_set_def jsmap_has_def jsmap_set_def Let_def)
  show ?thesis
    unfolding 1 2 3 playSentence_google_miss_last [OF 4 5 assms] 6
    by (simp add: f)
qed


lemma stopAudio_silent:
  assumes "utterances (device st) = []" "audioRef st = None" "sourceNodeRef st = None"
  shows "stopAudio st
     = st\<lparr>playback := (playback st)\<lparr>isPlaying := False, isLoading := False,
                                      detectedEmotion := None\<rparr>\<rparr>"
  using assms by (simp add: stopAudio_def synth_cancel_def)

lemma playSentence_resume_stale:
  "activeIndexRef st \<noteq> index \<Longrightarrow> playSentence_resume cl index p st = st"
  by (simp add: playSentence_resume_def split: sum.splits)

lemma playSentence_resume_fulfilled:
  assumes "p_outcome p = Inr item" "activeIndexRef st = index" "c_isPlaying cl"
  shows "playSentence_resume cl index p st
     = st\<lparr>playback := (playback st)\<lparr>isLoading := False,
                                      detectedEmotion := Some (emotion item)\<rparr>,
          nextId := nextId st + 1, sourceNodeRef := Some (nextId st),
          device := source_start (nextId st) (device st)\<rparr>"
  using assms by (simp add: playSentence_resume_def Let_def)

lemma playSentence_resume_rejected:
  assumes "p_outcome p = Inl e" "activeIndexRef st = index"
  shows "playSentence_resume cl index p st
     = st\<lparr>playback := (playback st)\<lparr>isPlaying := False, isLoading := False\<rparr>\<rparr>"
  using assms by (simp add: playSentence_resume_def)

lemma timer_closure_is_playing:
  "snd (playback_effect cl st) \<Longrightarrow> c_isPlaying cl"
  by (simp add: playback_effect_def split: if_splits)

lemma resume_after_stop_starts_audio:
  assumes "p_outcome p = Inr item" "activeIndexRef st = index" "c_isPlaying cl"
  shows "activations (device (playSentence_resume cl index p (stopAudio st)))
           = activations (device st) + 1
       \<and> \<not> isPlaying (playback (playSentence_resume cl index p (stopAudio st)))"
proof -
  have a: "activeIndexRef (stopAudio st) = index"
    using assms(2) by (simp add: stopAudio_def Let_def)
  have d: "activations (device (stopAudio st)) = activations (device st)"
    by (simp add: stopAudio_def synth_cancel_def audio_pause_def source_stop_def Let_def
        split: option.splits)
  have p: "\<not> isPlaying (playback (stopAudio st))" by (simp add: stopAudio_def Let_def)
  show ?thesis
    unfolding playSentence_resume_fulfilled [OF assms(1) a assms(3)]
    using d p by (simp add: source_start_def)
qed

text \<open>
  C1. A result that arrives when the active index has moved on is dropped
  (\<open>playSentence_resume_stale\<close>). A stop is not noticed: \<open>stopAudio\<close> leaves the
  active index alone, and the \<open>playback.isPlaying\<close> that \<open>playSentence\<close> tests after
  its \<open>await\<close> is the value of the render that started it, which is true whenever the
  effect started it (\<open>timer_closure_is_playing\<close>). In Scenario D the synthesis of
  segment 0 resolves after the stop: \<open>isPlaying\<close> stays false, but a buffer source is
  started and the tone label is set.
\<close>

theorem stop_then_resolve_starts_audio:
  "snd scenarioD_loading
     = AwaitItem \<lparr>p_id = 0, p_index = 0, p_origin = ByPlay,
         p_outcome = Inr \<lparr>buffer = \<lparr>sampleRate = 24000, numberOfChannels = 1,
                                    channelData = [1 / 2]\<rparr>,
                          emotion = js ''Calm''\<rparr>\<rparr>
   \<and> isLoading (playback (fst scenarioD_loading))
   \<and> activeIndexRef (fst scenarioD_loading) = 0
   \<and> \<not> isPlaying (playback scenarioD_stopped)
   \<and> activeIndexRef scenarioD_stopped = 0
   \<and> activations (device scenarioD_stopped) = 0
   \<and> \<not> isPlaying (playback scenarioD_resolved)
   \<and> activations (device scenarioD_resolved) = 1
   \<and> sourcePlaying (device scenarioD_resolved) = [1]
   \<and> detectedEmotion (playback scenarioD_resolved) = Some (js ''Calm'')"
proof -
  let ?s0 = "playingApp Google [js ''Hello.'']"
  let ?cl = "render ?s0"
  let ?item = "\<lparr>buffer = \<lparr>sampleRate = 24000, numberOfChannels = 1, channelData = [1 / 2]\<rparr>,
                 emotion = js ''Calm''\<rparr>"
  let ?p = "\<lparr>p_id = 0, p_index = 0, p_origin = ByPlay, p_outcome = Inr ?item\<rparr>"
  have ne: "[js ''Hello.''] \<noteq> []" by simp
  note f = playingApp_fields [OF ne, of Google]
  have cl: "c_textSegments ?cl = [js ''Hello.'']" "googleVoice (c_settings ?cl) = js ''Puck''"
    "c_isPlaying ?cl"
    by (simp_all add: render_def f)
  note l = startPlayback_hello [OF processGeminiSentence_hello [OF cl(1) cl(2)]]
  have w: "snd scenarioD_loading = AwaitItem ?p" by (simp add: scenarioD_loading_def l)
  have l1: "isLoading (playback (fst scenarioD_loading))"
    "activeIndexRef (fst scenarioD_loading) = 0"
    "utterances (device (fst scenarioD_loading)) = []"
    "audioRef (fst scenarioD_loading) = None" "sourceNodeRef (fst scenarioD_loading) = None"
    "nextId (fst scenarioD_loading) = 1"
    "device (fst scenarioD_loading)
       = \<lparr>utterances = [], audioPlaying = [], sourcePlaying = [], activations = 0,
             pendingEnded = []\<rparr>"
    by (simp_all add: scenarioD_loading_def l f)
  have st: "scenarioD_stopped
     = (fst scenarioD_loading)\<lparr>playback := (playback (fst scenarioD_loading))
         \<lparr>isPlaying := False, isLoading := False, detectedEmotion := None\<rparr>\<rparr>"
    unfolding scenarioD_stopped_def by (rule stopAudio_silent) (simp_all add: l1)
  have s1: "\<not> isPlaying (playback scenarioD_stopped)" "activeIndexRef scenarioD_stopped = 0"
    "activations (device scenarioD_stopped) = 0" "nextId scenarioD_stopped = 1"
    "device scenarioD_stopped
       = \<lparr>utterances = [], audioPlaying = [], sourcePlaying = [], activations = 0,
             pendingEnded = []\<rparr>"
    by (simp_all add: st l1)
  have ps: "promise_settled ?p scenarioD_stopped = scenarioD_stopped"
    by (simp add: promise_settled_def)
  have r: "scenarioD_resolved = playSentence_resume ?cl 0 ?p scenarioD_stopped"
    by (simp only: scenarioD_resolved_def settle_def w wait.case ps)
  have o: "p_outcome ?p = Inr ?item" by simp
  note r' = r [unfolded playSentence_resume_fulfilled [OF o s1(2) cl(3)]]
  have s2: "\<not> isPlaying (playback scenarioD_resolved)"
    "activations (device scenarioD_resolved) = 1"
    "sourcePlaying (device scenarioD_resolved) = [1]"
    "detectedEmotion (playback scenarioD_resolved) = Some (js ''Calm'')"
    by (simp_all add: r' s1 source_start_def)
  from w l1(1,2) s1(1-3) s2 show ?thesis by blast
qed


lemma processGeminiSentence_hello_refused:
  assumes "c_textSegments cl = [js ''Hello.'']" "googleVoice (c_settings cl) = js ''Puck''"
  shows "processGeminiSentence failingBackends cl 0
     = (Inl (BackendError 503),
        [EmotionRequest (emotionPrompt (js ''Hello.'') None []),
         SpeechRequest (ttsPrompt (js ''Hello.'') (js ''Calm'')) (js ''Puck'')])"
proof -
  have e: "detectEmotion (generateEmotion failingBackends) (js ''Hello.'') None []
             = Inr (js ''Calm'')"
    by (simp add: detectEmotion_def detectEmotion_try_def failingBackends_def
        fixedResponder_def trim_def js_def isWhiteSpace_def)
  have g: "generateGeminiSpeech (generateSpeech failingBackends) (js ''Hello.'') (js ''Puck'')
             (js ''Calm'') = Inl (BackendError 503)"
    by (simp add: generateGeminiSpeech_def failingBackends_def failingSpeech_def)
  have p: "js ''Puck'' \<noteq> []" by (simp add: js_def)
  show ?thesis
    by (simp add: processGeminiSentence_def assms hello_not_blank e g p Let_def)
qed

lemma prefetch_failure_removes_entry:
  assumes "p_origin p = ByPrefetch" "p_outcome p = Inl e"
  shows "\<not> lru_has (audioCache (promise_settled p st)) (p_index p)"
  using assms
  by (simp add: promise_settled_def lru_delete_def lru_has_def not_has_after_delete)

lemma play_failure_keeps_entry:
  assumes "p_origin p = ByPlay"
  shows "audioCache (playSentence_resume cl index p (promise_settled p st)) = audioCache st"
  using assms
  by (simp add: promise_settled_def playSentence_resume_def Let_def split: sum.splits)

text \<open>
  C3. A promise stored by \<open>prefetchGeminiSentence\<close> removes its index from the cache
  when it rejects (\<open>prefetch_failure_removes_entry\<close>). The promise \<open>playSentence\<close>
  stores itself has no such handler (\<open>play_failure_keeps_entry\<close>): after a refused
  synthesis of segment 0 on the play path the rejected promise is still cached, and
  pressing play again awaits that same promise; the producer is not invoked again and no
  request is made, although the backend would now answer.
\<close>

theorem play_path_failure_stays_cached:
  "snd scenarioF_loading
     = AwaitItem \<lparr>p_id = 0, p_index = 0, p_origin = ByPlay,
                  p_outcome = Inl (BackendError 503)\<rparr>
   \<and> producerCalls (fst scenarioF_loading) = [0]
   \<and> \<not> isPlaying (playback scenarioF_failed)
   \<and> lru_has (audioCache scenarioF_failed) 0
   \<and> jsmap_get (cache (audioCache scenarioF_failed)) 0
        = Some \<lparr>p_id = 0, p_index = 0, p_origin = ByPlay, p_outcome = Inl (BackendError 503)\<rparr>
   \<and> snd scenarioF_retry
        = AwaitItem \<lparr>p_id = 0, p_index = 0, p_origin = ByPlay,
                     p_outcome = Inl (BackendError 503)\<rparr>
   \<and> producerCalls (fst scenarioF_retry) = [0]
   \<and> requests (fst scenarioF_retry) = requests (fst scenarioF_loading)"
proof -
  let ?s0 = "playingApp Google [js ''Hello.'']"
  let ?cl = "render ?s0"
  let ?p = "\<lparr>p_id = 0, p_index = 0, p_origin = ByPlay, p_outcome = Inl (BackendError 503)\<rparr>"
  let ?reqs = "[EmotionRequest (emotionPrompt (js ''Hello.'') None []),
         SpeechRequest (ttsPrompt (js ''Hello.'') (js ''Calm'')) (js ''Puck'')]"
  have ne: "[js ''Hello.''] \<noteq> []" by simp
  note f = playingApp_fields [OF ne, of Google]
  have cl: "c_textSegments ?cl = [js ''Hello.'']" "googleVoice (c_settings ?cl) = js ''Puck''"
    by (simp_all add: render_def f)
  note l = startPlayback_hello [OF processGeminiSentence_hello_refused [OF cl(1) cl(2)]]
  have w: "snd scenarioF_loading = AwaitItem ?p" by (simp add: scenarioF_loading_def l)
  have l1: "producerCalls (fst scenarioF_loading) = [0]"
    "requests (fst scenarioF_loading) = ?reqs"
    "activeIndexRef (fst scenarioF_loading) = 0"
    "audioCache (fst scenarioF_loading) = \<lparr>cache = [(0, ?p)], capacity = 50\<rparr>"
    "textSegments (fst scenarioF_loading) = [js ''Hello.'']"
    "engine (settings (fst scenarioF_loading)) = Google"
    "currentIndex (playback (fst scenarioF_loading)) = 0"
    "utterances (device (fst scenarioF_loading)) = []"
    "audioRef (fst scenarioF_loading) = None" "sourceNodeRef (fst scenarioF_loading) = None"
    by (simp_all add: scenarioF_loading_def l f)
  have ps: "promise_settled ?p (fst scenarioF_loading) = fst scenarioF_loading"
    by (simp add: promise_settled_def)
  have o: "p_outcome ?p = Inl (BackendError 503)" by simp
  have fl: "scenarioF_failed
     = (fst scenarioF_loading)\<lparr>playback := (playback (fst scenarioF_loading))
          \<lparr>isPlaying := False, isLoading := False\<rparr>\<rparr>"
    by (simp only: scenarioF_failed_def settle_def w wait.case ps
        playSentence_resume_rejected [OF o l1(3)])
  have f1: "\<not> isPlaying (playback scenarioF_failed)"
    "audioCache scenarioF_failed = \<lparr>cache = [(0, ?p)], capacity = 50\<rparr>"
    "producerCalls scenarioF_failed = [0]" "requests scenarioF_failed = ?reqs"
    "textSegments scenarioF_failed = [js ''Hello.'']"
    "engine (settings scenarioF_failed) = Google"
    "currentIndex (playback scenarioF_failed) = 0"
    "utterances (device scenarioF_failed) = []"
    "audioRef scenarioF_failed = None" "sourceNodeRef scenarioF_failed = None"
    by (simp_all add: fl l1)
  have h: "lru_has (audioCache scenarioF_failed) 0"
    "jsmap_get (cache (audioCache scenarioF_failed)) 0 = Some ?p"
    by (simp_all add: f1 lru_has_def jsmap_has_def jsmap_get_def)
  let ?s5 = "togglePlay (render scenarioF_failed) scenarioF_failed"
  have t: "?s5 = scenarioF_failed\<lparr>playback := (playback scenarioF_failed)
       \<lparr>isPlaying := True, currentIndex := 0\<rparr>\<rparr>"
    by (simp add: togglePlay_def render_def f1)
  have t1: "isPlaying (playback ?s5)" "currentIndex (playback ?s5) = 0"
    "c_textSegments (render ?s5) = [js ''Hello.'']"
    "engine (c_settings (render ?s5)) = Google"
    unfolding t by (simp_all add: render_def f1)
  let ?s6 = "?s5\<lparr>activeIndexRef := 0\<rparr>"
  have 1: "startPlayback workingBackends ?s5
      = playSentence_begin workingBackends (render ?s5) 0 ?s6"
    using startPlayback_playing [OF t1(1), of workingBackends] by (simp only: t1(2))
  have 2: "playSentence_begin workingBackends (render ?s5) 0 ?s6
      = playSentence_google workingBackends (render ?s5) 0 (stop_previous ?s6)"
    by (rule playSentence_begin_google) (simp_all add: t1 hello_not_blank)
  have 3: "stop_previous ?s6 = ?s6"
    by (rule stop_previous_silent) (simp_all add: t f1)
  have 4: "lru_get (audioCache ?s6) 0 = (Some ?p, \<lparr>cache = [(0, ?p)], capacity = 50\<rparr>)"
    by (simp add: t f1 lru_get_def jsmap_has_def jsmap_get_def jsmap_delete_def jsmap_set_def)
  have 5: "int (length (c_textSegments (render ?s5))) \<le> 0 + 1" by (simp add: t1)
  have r: "scenarioF_retry = (?s6\<lparr>audioCache := \<lparr>cache = [(0, ?p)], capacity = 50\<rparr>\<rparr>,
      AwaitItem ?p)"
    unfolding scenarioF_retry_def 1 2 3 playSentence_google_hit_last [OF 4 5] ..
  have r1: "snd scenarioF_retry = AwaitItem ?p" "producerCalls (fst scenarioF_retry) = [0]"
    "requests (fst scenarioF_retry) = requests (fst scenarioF_loading)"
    by (simp_all add: r t f1 l1)
  from w l1(1) f1(1) h r1 show ?thesis by blast
qed


section \<open>One producer call for repeated requests\<close>

lemma jsmap_set_after_delete:
  "jsmap_set (jsmap_delete m k) k v = filter (\<lambda>e. fst e \<noteq> k) m @ [(k, v)]"
  using not_has_after_delete [of m k] by (simp add: jsmap_set_def jsmap_delete_def)

lemma cache_lru_set:
  "cache (lru_set c k v) =
     (if jsmap_has (cache c) k then filter (\<lambda>e. fst e \<noteq> k) (cache c) @ [(k, v)]
      else if capacity c \<le> int (length (cache c)) then
        (case cache c of
           [] \<Rightarrow> [(k, v)]
         | e # _ \<Rightarrow> filter (\<lambda>x. fst x \<noteq> fst e) (cache c) @ [(k, v)])
      else cache c @ [(k, v)])"
proof (cases "jsmap_has (cache c) k")
  case True
  then show ?thesis by (simp add: lru_set_def Let_def jsmap_set_after_delete)
next
  case nh: False
  show ?thesis
  proof (cases "cache c")
    case Nil
    have "\<not> jsmap_has [] k" by (simp add: jsmap_has_def)
    then show ?thesis
      by (auto simp add: Nil lru_set_def Let_def jsmap_first_key_def jsmap_set_def)
  next
    case (Cons e es)
    have "\<not> jsmap_has (jsmap_delete (cache c) (fst e)) k"
      using nh by (simp add: jsmap_has_def keys_jsmap_delete)
    then have eq: "jsmap_set (jsmap_delete (cache c) (fst e)) k v
        = filter (\<lambda>x. fst x \<noteq> fst e) (cache c) @ [(k, v)]"
      by (simp add: jsmap_set_def jsmap_delete_def)
    have fk: "jsmap_first_key (cache c) = Some (fst e)"
      by (simp add: Cons jsmap_first_key_def)
    have cs: "(case cache c of [] \<Rightarrow> [(k, v)]
               | e # _ \<Rightarrow> filter (\<lambda>x. fst x \<noteq> fst e) (cache c) @ [(k, v)])
              = filter (\<lambda>x. fst x \<noteq> fst e) (cache c) @ [(k, v)]"
      by (simp add: Cons)
    have ns: "jsmap_set (cache c) k v = cache c @ [(k, v)]"
      using nh by (simp add: jsmap_set_def)
    show ?thesis
      unfolding cs using nh by (simp add: lru_set_def Let_def fk eq ns)
  qed
qed

lemma lru_get_hit:
  assumes "map_of (cache c) i = Some p"
  shows "lru_get c i = (Some p, c\<lparr>cache := filter (\<lambda>e. fst e \<noteq> i) (cache c) @ [(i, p)]\<rparr>)"
proof -
  from assms have "jsmap_has (cache c) i"
    by (auto simp: jsmap_has_def dest: map_of_SomeD intro: rev_image_eqI)
  with assms show ?thesis
    by (simp add: lru_get_def jsmap_get_def jsmap_set_after_delete)
qed

lemma lru_get_miss: "\<not> lru_has c i \<Longrightarrow> lru_get c i = (None, c)"
  by (simp add: lru_get_def lru_has_def)

lemma suffix_in_lastn: "length S \<le> n \<Longrightarrow> set S \<subseteq> set (lastn n (A @ S))"
  by (simp add: lastn_def)

lemma filter_lastn_subset: "set (filter P (lastn n xs)) \<subseteq> set (lastn n (filter P xs))"
proof -
  let ?a = "length xs - n"
  have "filter P xs = filter P (take ?a xs) @ filter P (drop ?a xs)"
    by (metis append_take_drop_id filter_append)
  moreover have "length (filter P (drop ?a xs)) \<le> n"
    by (rule order_trans [OF length_filter_le]) simp
  ultimately show ?thesis
    using suffix_in_lastn [of "filter P (drop ?a xs)" n "filter P (take ?a xs)"]
    by (simp add: lastn_def)
qed

lemma lastn_snoc: "lastn (Suc n) (xs @ [y]) = lastn n xs @ [y]"
  by (simp add: lastn_def)

lemma lastn_mono: "set (lastn n xs) \<subseteq> set (lastn (Suc n) xs)"
  unfolding lastn_def by (rule set_drop_subset_set_drop) simp

lemma recent_after_filter:
  assumes "(i, p) \<in> set (lastn n m)" "x \<noteq> i"
  shows "(i, p) \<in> set (lastn (Suc n) (filter (\<lambda>e. fst e \<noteq> x) m @ [(k, v)]))"
proof -
  from assms have a: "(i, p) \<in> set (filter (\<lambda>e. fst e \<noteq> x) (lastn n m))" by simp
  have "(i, p) \<in> set (lastn n (filter (\<lambda>e. fst e \<noteq> x) m))"
    by (rule subsetD [OF filter_lastn_subset a])
  then show ?thesis by (simp add: lastn_snoc)
qed

lemma recent_after_set:
  assumes r: "(i, p) \<in> set (lastn n (cache c))"
    and n: "int n < capacity c"
    and d: "distinct (map fst (cache c))"
    and k: "k \<noteq> i"
  shows "(i, p) \<in> set (lastn (Suc n) (cache (lru_set c k v)))"
proof (cases "jsmap_has (cache c) k")
  case True
  then show ?thesis using recent_after_filter [OF r, of k] k by (simp add: cache_lru_set)
next
  case nh: False
  show ?thesis
  proof (cases "capacity c \<le> int (length (cache c))")
    case full: True
    with n obtain e es where c: "cache c = e # es" by (cases "cache c") auto
    from full n have "0 < length (cache c) - n" by simp
    then obtain j where j: "length (cache c) - n = Suc j" by (cases "length (cache c) - n") auto
    from r have "(i, p) \<in> set (drop (length (cache c) - n) (cache c))"
      by (simp add: lastn_def)
    then have "(i, p) \<in> set (drop (Suc j) (e # es))" unfolding j unfolding c .
    then have "(i, p) \<in> set (drop j es)" by simp
    then have "(i, p) \<in> set es" by (rule in_set_dropD)
    then have "i \<in> fst ` set es" by force
    with d c have "fst e \<noteq> i" by auto
    with recent_after_filter [OF r, of "fst e"] nh full c show ?thesis
      by (simp add: cache_lru_set)
  next
    case False
    with nh r show ?thesis by (simp add: cache_lru_set lastn_snoc)
  qed
qed

lemma recent_lookup:
  assumes "(i, p) \<in> set (lastn n (cache c))" "distinct (map fst (cache c))"
  shows "map_of (cache c) i = Some p"
proof -
  from assms(1) have "(i, p) \<in> set (cache c)" unfolding lastn_def by (rule in_set_dropD)
  with assms(2) show ?thesis by simp
qed

lemma distinct_after_set:
  "distinct (map fst (cache c)) \<Longrightarrow> distinct (map fst (cache (lru_set c k v)))"
  using distinct_keys_step [of c "CSet k v"] by (simp add: lru_keys_def)

lemma distinct_after_get:
  "distinct (map fst (cache c)) \<Longrightarrow> distinct (map fst (cache (snd (lru_get c k))))"
  using distinct_keys_step [of c "CGet k"] by (simp add: lru_keys_def)


lemma invokeProducer_eq:
  "invokeProducer be cl index origin st
     = (\<lparr>p_id = nextId st, p_index = index, p_origin = origin,
         p_outcome = fst (processGeminiSentence be cl index)\<rparr>,
        st\<lparr>nextId := nextId st + 1,
           producerCalls := producerCalls st @ [index],
           requests := requests st @ snd (processGeminiSentence be cl index)\<rparr>)"
  by (simp add: invokeProducer_def split_def Let_def)

lemma prefetch_cases:
  "prefetchGeminiSentence be cl j st = st
   \<or> (\<not> lru_has (audioCache st) j
       \<and> (\<exists>p. audioCache (prefetchGeminiSentence be cl j st) = lru_set (audioCache st) j p)
       \<and> producerCalls (prefetchGeminiSentence be cl j st) = producerCalls st @ [j])"
proof (cases "int (length (c_textSegments cl)) \<le> j \<or> lru_has (audioCache st) j")
  case True
  then have "prefetchGeminiSentence be cl j st = st"
    by (auto simp: prefetchGeminiSentence_def)
  then show ?thesis ..
next
  case False
  then have "audioCache (prefetchGeminiSentence be cl j st)
      = lru_set (audioCache st) j \<lparr>p_id = nextId st, p_index = j, p_origin = ByPrefetch,
         p_outcome = fst (processGeminiSentence be cl j)\<rparr>"
    and "producerCalls (prefetchGeminiSentence be cl j st) = producerCalls st @ [j]"
    by (simp_all add: prefetchGeminiSentence_def invokeProducer_eq)
  with False show ?thesis by blast
qed

lemma prefetch_keeps:
  assumes r: "(i, p) \<in> set (lastn n (cache (audioCache st)))"
    and n: "int n < capacity (audioCache st)"
    and d: "distinct (map fst (cache (audioCache st)))"
    and j: "j \<noteq> i"
  shows "(i, p) \<in> set (lastn (Suc n) (cache (audioCache (prefetchGeminiSentence be cl j st))))
    \<and> distinct (map fst (cache (audioCache (prefetchGeminiSentence be cl j st))))
    \<and> capacity (audioCache (prefetchGeminiSentence be cl j st)) = capacity (audioCache st)
    \<and> count_list (producerCalls (prefetchGeminiSentence be cl j st)) i
        = count_list (producerCalls st) i"
  using prefetch_cases [of be cl j st]
proof
  assume "prefetchGeminiSentence be cl j st = st"
  with r d show ?thesis using lastn_mono [of n "cache (audioCache st)"] by auto
next
  assume a: "\<not> lru_has (audioCache st) j
       \<and> (\<exists>p. audioCache (prefetchGeminiSentence be cl j st) = lru_set (audioCache st) j p)
       \<and> producerCalls (prefetchGeminiSentence be cl j st) = producerCalls st @ [j]"
  then obtain q where q: "audioCache (prefetchGeminiSentence be cl j st)
      = lru_set (audioCache st) j q" by blast
  from a j have c: "count_list (producerCalls (prefetchGeminiSentence be cl j st)) i
        = count_list (producerCalls st) i" by simp
  show ?thesis
    unfolding q using recent_after_set [OF r n d j] distinct_after_set [OF d] c by simp
qed

lemma stop_previous_frame:
  "audioCache (stop_previous st) = audioCache st"
  "producerCalls (stop_previous st) = producerCalls st"
  by (simp_all add: stop_previous_def Let_def)

lemma google_hit:
  assumes "map_of (cache (audioCache st)) i = Some p"
  shows "playSentence_google be cl i st
     = (prefetchGeminiSentence be cl (i + 2) (prefetchGeminiSentence be cl (i + 1)
          (st\<lparr>audioCache := (audioCache st)
               \<lparr>cache := filter (\<lambda>e. fst e \<noteq> i) (cache (audioCache st)) @ [(i, p)]\<rparr>\<rparr>)),
        AwaitItem p)"
  by (simp add: playSentence_google_def lru_get_hit [OF assms])

lemma google_miss:
  assumes "\<not> lru_has (audioCache st) i"
  shows "playSentence_google be cl i st
     = (prefetchGeminiSentence be cl (i + 2) (prefetchGeminiSentence be cl (i + 1)
          (st\<lparr>playback := (playback st)\<lparr>isLoading := True\<rparr>,
              nextId := nextId st + 1,
              producerCalls := producerCalls st @ [i],
              requests := requests st @ snd (processGeminiSentence be cl i),
              audioCache := lru_set (audioCache st) i
                \<lparr>p_id = nextId st, p_index = i, p_origin = ByPlay,
                 p_outcome = fst (processGeminiSentence be cl i)\<rparr>\<rparr>)),
        AwaitItem \<lparr>p_id = nextId st, p_index = i, p_origin = ByPlay,
                   p_outcome = fst (processGeminiSentence be cl i)\<rparr>)"
  by (simp add: playSentence_google_def lru_get_miss [OF assms] invokeProducer_eq)

lemma last_entry_recent: "(i, p) \<in> set (lastn (Suc 0) (m @ [(i, p)]))"
  by (simp add: lastn_def)

lemma set_makes_recent: "(i, p) \<in> set (lastn (Suc 0) (cache (lru_set c i p)))"
  by (auto simp: cache_lru_set lastn_def split: list.splits)

lemma two_prefetches_keep:
  assumes r: "(i, p) \<in> set (lastn (Suc 0) (cache (audioCache st)))"
    and c: "3 \<le> capacity (audioCache st)"
    and d: "distinct (map fst (cache (audioCache st)))"
  shows "map_of (cache (audioCache (prefetchGeminiSentence be cl (i + 2)
            (prefetchGeminiSentence be cl (i + 1) st)))) i = Some p
    \<and> distinct (map fst (cache (audioCache (prefetchGeminiSentence be cl (i + 2)
            (prefetchGeminiSentence be cl (i + 1) st)))))
    \<and> capacity (audioCache (prefetchGeminiSentence be cl (i + 2)
            (prefetchGeminiSentence be cl (i + 1) st))) = capacity (audioCache st)
    \<and> count_list (producerCalls (prefetchGeminiSentence be cl (i + 2)
            (prefetchGeminiSentence be cl (i + 1) st))) i = count_list (producerCalls st) i"
proof -
  let ?s1 = "prefetchGeminiSentence be cl (i + 1) st"
  let ?s2 = "prefetchGeminiSentence be cl (i + 2) ?s1"
  from c have n1: "int (Suc 0) < capacity (audioCache st)" by simp
  have j1: "i + 1 \<noteq> i" by simp
  note k1 = prefetch_keeps [OF r n1 d j1, of be cl]
  from k1 have r1: "(i, p) \<in> set (lastn (Suc (Suc 0)) (cache (audioCache ?s1)))"
    and d1: "distinct (map fst (cache (audioCache ?s1)))"
    and c1: "capacity (audioCache ?s1) = capacity (audioCache st)"
    and u1: "count_list (producerCalls ?s1) i = count_list (producerCalls st) i"
    by blast+
  from c c1 have n2: "int (Suc (Suc 0)) < capacity (audioCache ?s1)" by simp
  have j2: "i + 2 \<noteq> i" by simp
  note k2 = prefetch_keeps [OF r1 n2 d1 j2, of be cl]
  from k2 have r2: "(i, p) \<in> set (lastn (Suc (Suc (Suc 0))) (cache (audioCache ?s2)))"
    and d2: "distinct (map fst (cache (audioCache ?s2)))"
    and c2: "capacity (audioCache ?s2) = capacity (audioCache ?s1)"
    and u2: "count_list (producerCalls ?s2) i = count_list (producerCalls ?s1) i"
    by blast+
  from recent_lookup [OF r2 d2] d2 c2 c1 u2 u1 show ?thesis by simp
qed


lemma google_hit_keeps:
  assumes m: "map_of (cache (audioCache st)) i = Some p"
    and c: "3 \<le> capacity (audioCache st)"
    and d: "distinct (map fst (cache (audioCache st)))"
  shows "snd (playSentence_google be cl i st) = AwaitItem p
    \<and> map_of (cache (audioCache (fst (playSentence_google be cl i st)))) i = Some p
    \<and> distinct (map fst (cache (audioCache (fst (playSentence_google be cl i st)))))
    \<and> capacity (audioCache (fst (playSentence_google be cl i st))) = capacity (audioCache st)
    \<and> count_list (producerCalls (fst (playSentence_google be cl i st))) i
        = count_list (producerCalls st) i"
proof -
  let ?s1 = "st\<lparr>audioCache := (audioCache st)
               \<lparr>cache := filter (\<lambda>e. fst e \<noteq> i) (cache (audioCache st)) @ [(i, p)]\<rparr>\<rparr>"
  have r: "(i, p) \<in> set (lastn (Suc 0) (cache (audioCache ?s1)))"
    by (simp add: last_entry_recent)
  have c1: "3 \<le> capacity (audioCache ?s1)" using c by simp
  have "distinct (map fst (cache (snd (lru_get (audioCache st) i))))"
    using d by (rule distinct_after_get)
  then have d1: "distinct (map fst (cache (audioCache ?s1)))"
    by (simp add: lru_get_hit [OF m])
  from two_prefetches_keep [OF r c1 d1, of be cl] show ?thesis
    by (simp add: google_hit [OF m])
qed

lemma google_miss_keeps:
  assumes m: "\<not> lru_has (audioCache st) i"
    and c: "3 \<le> capacity (audioCache st)"
    and d: "distinct (map fst (cache (audioCache st)))"
  shows "(\<exists>p. map_of (cache (audioCache (fst (playSentence_google be cl i st)))) i = Some p)
    \<and> distinct (map fst (cache (audioCache (fst (playSentence_google be cl i st)))))
    \<and> capacity (audioCache (fst (playSentence_google be cl i st))) = capacity (audioCache st)
    \<and> count_list (producerCalls (fst (playSentence_google be cl i st))) i
        = count_list (producerCalls st) i + 1"
proof -
  let ?p = "\<lparr>p_id = nextId st, p_index = i, p_origin = ByPlay,
                 p_outcome = fst (processGeminiSentence be cl i)\<rparr>"
  let ?s1 = "st\<lparr>playback := (playback st)\<lparr>isLoading := True\<rparr>,
              nextId := nextId st + 1,
              producerCalls := producerCalls st @ [i],
              requests := requests st @ snd (processGeminiSentence be cl i),
              audioCache := lru_set (audioCache st) i ?p\<rparr>"
  have r: "(i, ?p) \<in> set (lastn (Suc 0) (cache (audioCache ?s1)))"
    by (simp add: set_makes_recent)
  have c1: "3 \<le> capacity (audioCache ?s1)" using c by simp
  have d1: "distinct (map fst (cache (audioCache ?s1)))"
    using distinct_after_set [OF d] by simp
  from two_prefetches_keep [OF r c1 d1, of be cl] show ?thesis
    by (simp add: google_miss [OF m])
qed

lemma prefetch_first:
  assumes m: "\<not> lru_has (audioCache st) i"
    and i: "i < int (length (c_textSegments cl))"
    and d: "distinct (map fst (cache (audioCache st)))"
  shows "(\<exists>p. map_of (cache (audioCache (prefetchGeminiSentence be cl i st))) i = Some p)
    \<and> distinct (map fst (cache (audioCache (prefetchGeminiSentence be cl i st))))
    \<and> capacity (audioCache (prefetchGeminiSentence be cl i st)) = capacity (audioCache st)
    \<and> count_list (producerCalls (prefetchGeminiSentence be cl i st)) i
        = count_list (producerCalls st) i + 1"
proof -
  let ?p = "\<lparr>p_id = nextId st, p_index = i, p_origin = ByPrefetch,
                 p_outcome = fst (processGeminiSentence be cl i)\<rparr>"
  have e: "audioCache (prefetchGeminiSentence be cl i st) = lru_set (audioCache st) i ?p"
    "producerCalls (prefetchGeminiSentence be cl i st) = producerCalls st @ [i]"
    using m i by (simp_all add: prefetchGeminiSentence_def invokeProducer_eq)
  have d1: "distinct (map fst (cache (lru_set (audioCache st) i ?p)))"
    using d by (rule distinct_after_set)
  have "map_of (cache (lru_set (audioCache st) i ?p)) i = Some ?p"
    using recent_lookup [OF set_makes_recent d1] .
  with d1 show ?thesis by (simp add: e)
qed

lemma ensure_first:
  assumes g: "engine (c_settings cl) = Google" "0 \<le> i" "i < int (length (c_textSegments cl))"
      "trim (c_textSegments cl ! nat i) \<noteq> []"
    and m: "\<not> lru_has (audioCache st) i"
    and c: "3 \<le> capacity (audioCache st)"
    and d: "distinct (map fst (cache (audioCache st)))"
  shows "lru_has (audioCache (ensure be cl i r st)) i
    \<and> distinct (map fst (cache (audioCache (ensure be cl i r st))))
    \<and> capacity (audioCache (ensure be cl i r st)) = capacity (audioCache st)
    \<and> count_list (producerCalls (ensure be cl i r st)) i = count_list (producerCalls st) i + 1"
proof (cases r)
  case ViaPrefetch
  from prefetch_first [OF m g(3) d, of be] show ?thesis
    by (auto simp: ViaPrefetch ensure_def lru_has_def jsmap_has_def
        dest!: map_of_SomeD intro: rev_image_eqI)
next
  case ViaPlay
  have b: "playSentence_begin be cl i st = playSentence_google be cl i (stop_previous st)"
    using g by (rule playSentence_begin_google)
  have "\<not> lru_has (audioCache (stop_previous st)) i" "3 \<le> capacity (audioCache (stop_previous st))"
    "distinct (map fst (cache (audioCache (stop_previous st))))"
    using m c d by (simp_all add: stop_previous_frame)
  from google_miss_keeps [OF this, of be cl] show ?thesis
    by (auto simp: ViaPlay ensure_def b stop_previous_frame lru_has_def jsmap_has_def
        dest!: map_of_SomeD intro: rev_image_eqI)
qed

lemma ensure_again:
  assumes g: "engine (c_settings cl) = Google" "0 \<le> i" "i < int (length (c_textSegments cl))"
      "trim (c_textSegments cl ! nat i) \<noteq> []"
    and m: "lru_has (audioCache st) i"
    and c: "3 \<le> capacity (audioCache st)"
    and d: "distinct (map fst (cache (audioCache st)))"
  shows "lru_has (audioCache (ensure be cl i r st)) i
    \<and> distinct (map fst (cache (audioCache (ensure be cl i r st))))
    \<and> capacity (audioCache (ensure be cl i r st)) = capacity (audioCache st)
    \<and> count_list (producerCalls (ensure be cl i r st)) i = count_list (producerCalls st) i"
proof (cases r)
  case ViaPrefetch
  from m have "prefetchGeminiSentence be cl i st = st"
    by (simp add: prefetchGeminiSentence_def)
  with m d show ?thesis by (simp add: ViaPrefetch ensure_def)
next
  case ViaPlay
  have b: "playSentence_begin be cl i st = playSentence_google be cl i (stop_previous st)"
    using g by (rule playSentence_begin_google)
  from m have "map_of (cache (audioCache st)) i \<noteq> None"
    by (simp add: lru_has_def jsmap_has_def map_of_eq_None_iff)
  then obtain p where "map_of (cache (audioCache st)) i = Some p" by auto
  then have "map_of (cache (audioCache (stop_previous st))) i = Some p"
    "3 \<le> capacity (audioCache (stop_previous st))"
    "distinct (map fst (cache (audioCache (stop_previous st))))"
    using c d by (simp_all add: stop_previous_frame)
  from google_hit_keeps [OF this, of be cl] show ?thesis
    by (auto simp: ViaPlay ensure_def b stop_previous_frame lru_has_def jsmap_has_def
        dest!: map_of_SomeD intro: rev_image_eqI)
qed

lemma ensure_all_again:
  assumes g: "engine (c_settings cl) = Google" "0 \<le> i" "i < int (length (c_textSegments cl))"
      "trim (c_textSegments cl ! nat i) \<noteq> []"
  shows "lru_has (audioCache st) i \<Longrightarrow> 3 \<le> capacity (audioCache st)
    \<Longrightarrow> distinct (map fst (cache (audioCache st)))
    \<Longrightarrow> count_list (producerCalls (ensure_all be cl i rs st)) i
          = count_list (producerCalls st) i"
proof (induction rs arbitrary: st)
  case Nil
  then show ?case by (simp add: ensure_all_def)
next
  case (Cons r rs)
  note e = ensure_again [OF g Cons.prems, of be r]
  from e have "count_list (producerCalls (ensure_all be cl i rs (ensure be cl i r st))) i
      = count_list (producerCalls (ensure be cl i r st)) i"
    using Cons.prems by (intro Cons.IH) simp_all
  with e show ?case by (simp add: ensure_all_def)
qed


text \<open>
  C4. On the Gemini engine, for a segment in range that is not blank, with a cache of
  capacity at least 3 (the application's has 50): a prefetch that finds the index cached
  changes nothing at all; \<open>playSentence\<close> that finds it cached awaits the cached promise
  itself, leaves it cached under the index, and does not invoke the producer for the
  index; and any run of prefetch and play requests for the index, with nothing settling
  in between, invokes the producer for it exactly once when it was not cached before and
  not at all when it was.
\<close>

theorem producer_invoked_once:
  assumes "engine (c_settings cl) = Google"
    and "0 \<le> i" and "i < int (length (c_textSegments cl))"
    and "trim (c_textSegments cl ! nat i) \<noteq> []"
    and "3 \<le> capacity (audioCache st)"
    and "distinct (lru_keys (audioCache st))"
  shows "(lru_has (audioCache st) i \<longrightarrow> prefetchGeminiSentence be cl i st = st)
    \<and> (\<forall>p. jsmap_get (cache (audioCache st)) i = Some p \<longrightarrow>
          snd (playSentence_begin be cl i st) = AwaitItem p
          \<and> jsmap_get (cache (audioCache (fst (playSentence_begin be cl i st)))) i = Some p
          \<and> count_list (producerCalls (fst (playSentence_begin be cl i st))) i
              = count_list (producerCalls st) i)
    \<and> (lru_has (audioCache st) i \<longrightarrow>
          count_list (producerCalls (ensure_all be cl i rs st)) i
            = count_list (producerCalls st) i)
    \<and> (\<not> lru_has (audioCache st) i \<and> rs \<noteq> [] \<longrightarrow>
          count_list (producerCalls (ensure_all be cl i rs st)) i
            = count_list (producerCalls st) i + 1)"
proof -
  note g = assms(1-4)
  note c = assms(5)
  have d: "distinct (map fst (cache (audioCache st)))"
    using assms(6) by (simp add: lru_keys_def)
  have 1: "lru_has (audioCache st) i \<longrightarrow> prefetchGeminiSentence be cl i st = st"
    by (simp add: prefetchGeminiSentence_def)
  have 2: "\<forall>p. jsmap_get (cache (audioCache st)) i = Some p \<longrightarrow>
          snd (playSentence_begin be cl i st) = AwaitItem p
          \<and> jsmap_get (cache (audioCache (fst (playSentence_begin be cl i st)))) i = Some p
          \<and> count_list (producerCalls (fst (playSentence_begin be cl i st))) i
              = count_list (producerCalls st) i"
  proof (intro allI impI)
    fix p
    assume "jsmap_get (cache (audioCache st)) i = Some p"
    then have "map_of (cache (audioCache (stop_previous st))) i = Some p"
      "3 \<le> capacity (audioCache (stop_previous st))"
      "distinct (map fst (cache (audioCache (stop_previous st))))"
      using c d by (simp_all add: stop_previous_frame jsmap_get_def)
    from google_hit_keeps [OF this, of be cl]
    show "snd (playSentence_begin be cl i st) = AwaitItem p
          \<and> jsmap_get (cache (audioCache (fst (playSentence_begin be cl i st)))) i = Some p
          \<and> count_list (producerCalls (fst (playSentence_begin be cl i st))) i
              = count_list (producerCalls st) i"
      by (simp add: playSentence_begin_google [OF g] stop_previous_frame jsmap_get_def)
  qed
  have 3: "lru_has (audioCache st) i \<longrightarrow>
          count_list (producerCalls (ensure_all be cl i rs st)) i
            = count_list (producerCalls st) i"
    using ensure_all_again [OF g _ c d] by blast
  have 4: "\<not> lru_has (audioCache st) i \<and> rs \<noteq> [] \<longrightarrow>
          count_list (producerCalls (ensure_all be cl i rs st)) i
            = count_list (producerCalls st) i + 1"
  proof
    assume a: "\<not> lru_has (audioCache st) i \<and> rs \<noteq> []"
    then obtain r rs' where rs: "rs = r # rs'" by (cases rs) auto
    from a have m: "\<not> lru_has (audioCache st) i" ..
    note e = ensure_first [OF g m c d, of be r]
    from e c have "count_list (producerCalls (ensure_all be cl i rs' (ensure be cl i r st))) i
        = count_list (producerCalls (ensure be cl i r st)) i"
      by (intro ensure_all_again [OF g]) simp_all
    with e show "count_list (producerCalls (ensure_all be cl i rs st)) i
            = count_list (producerCalls st) i + 1"
      by (simp add: rs ensure_all_def)
  qed
  from 1 2 3 4 show ?thesis by blast
qed

lemma one_not_blank: "trim (js ''One.'') \<noteq> []"
  by (simp add: trim_def js_def isWhiteSpace_def)

theorem producer_invoked_once_witness:
  "count_list (producerCalls (ensure_all workingBackends
       (render (playingApp Google [js ''One.'', js ''Two.''])) 0
       [ViaPlay, ViaPrefetch, ViaPlay, ViaPlay]
       (playingApp Google [js ''One.'', js ''Two.'']))) 0 = 1
   \<and> prefetchGeminiSentence workingBackends
       (render (playingApp Google [js ''One.'', js ''Two.''])) 0
       ((playingApp Google [js ''One.'', js ''Two.''])
          \<lparr>audioCache := \<lparr>cache = [(0, \<lparr>p_id = 7, p_index = 0, p_origin = ByPrefetch,
               p_outcome = Inl NoAudioReturned\<rparr>)], capacity = 50\<rparr>\<rparr>)
     = (playingApp Google [js ''One.'', js ''Two.''])
          \<lparr>audioCache := \<lparr>cache = [(0, \<lparr>p_id = 7, p_index = 0, p_origin = ByPrefetch,
               p_outcome = Inl NoAudioReturned\<rparr>)], capacity = 50\<rparr>\<rparr>
   \<and> snd (playSentence_begin workingBackends
       (render (playingApp Google [js ''One.'', js ''Two.''])) 0
       ((playingApp Google [js ''One.'', js ''Two.''])
          \<lparr>audioCache := \<lparr>cache = [(0, \<lparr>p_id = 7, p_index = 0, p_origin = ByPrefetch,
               p_outcome = Inl NoAudioReturned\<rparr>)], capacity = 50\<rparr>\<rparr>))
     = AwaitItem \<lparr>p_id = 7, p_index = 0, p_origin = ByPrefetch,
                  p_outcome = Inl NoAudioReturned\<rparr>"
proof -
  let ?s0 = "playingApp Google [js ''One.'', js ''Two.'']"
  let ?cl = "render ?s0"
  let ?p = "\<lparr>p_id = 7, p_index = 0, p_origin = ByPrefetch, p_outcome = Inl NoAudioReturned\<rparr>"
  let ?s1 = "?s0\<lparr>audioCache := \<lparr>cache = [(0, ?p)], capacity = 50\<rparr>\<rparr>"
  have ne: "[js ''One.'', js ''Two.''] \<noteq> []" by simp
  note f = playingApp_fields [OF ne, of Google]
  have h1: "engine (c_settings ?cl) = Google" by (simp add: render_def f)
  have h2: "(0::int) \<le> 0" by simp
  have h3: "0 < int (length (c_textSegments ?cl))" by (simp add: render_def f)
  have h4: "trim (c_textSegments ?cl ! nat 0) \<noteq> []" by (simp add: render_def f one_not_blank)
  have h5: "3 \<le> capacity (audioCache ?s0)" by (simp add: f)
  have h6: "distinct (lru_keys (audioCache ?s0))" by (simp add: f lru_keys_def)
  have k5: "3 \<le> capacity (audioCache ?s1)" by simp
  have k6: "distinct (lru_keys (audioCache ?s1))" by (simp add: lru_keys_def)
  have m0: "\<not> lru_has (audioCache ?s0) 0 \<and> [ViaPlay, ViaPrefetch, ViaPlay, ViaPlay] \<noteq> []"
    by (simp add: f lru_has_def jsmap_has_def)
  have m1: "lru_has (audioCache ?s1) 0" by (simp add: lru_has_def jsmap_has_def)
  have m2: "jsmap_get (cache (audioCache ?s1)) 0 = Some ?p" by (simp add: jsmap_get_def)
  note t0 = producer_invoked_once [OF h1 h2 h3 h4 h5 h6,
      of workingBackends "[ViaPlay, ViaPrefetch, ViaPlay, ViaPlay]"]
  note t1 = producer_invoked_once [OF h1 h2 h3 h4 k5 k6, of workingBackends "[]"]
  from t0 m0 have "count_list (producerCalls (ensure_all workingBackends ?cl 0
       [ViaPlay, ViaPrefetch, ViaPlay, ViaPlay] ?s0)) 0 = count_list (producerCalls ?s0) 0 + 1"
    by blast
  then have a: "count_list (producerCalls (ensure_all workingBackends ?cl 0
       [ViaPlay, ViaPrefetch, ViaPlay, ViaPlay] ?s0)) 0 = 1"
    by (simp add: f)
  from t1 m1 have b: "prefetchGeminiSentence workingBackends ?cl 0 ?s1 = ?s1" by blast
  from t1 m2 have c: "snd (playSentence_begin workingBackends ?cl 0 ?s1) = AwaitItem ?p"
    by blast
  from a b c show ?thesis by blast
qed


section \<open>Stopping while a Gemini source sounds\<close>

lemma working_emotion:
  "detectEmotion (generateEmotion workingBackends) text prev ctx = Inr (js ''Calm'')"
  by (simp add: detectEmotion_def detectEmotion_try_def workingBackends_def
      fixedResponder_def trim_def js_def isWhiteSpace_def)

lemma working_speech:
  "generateGeminiSpeech (generateSpeech workingBackends) text (js ''Puck'') emo
     = Inr (Some [0, 64])"
  by (simp add: generateGeminiSpeech_def workingBackends_def fixedSpeech_def js_def)

lemma working_decode:
  "decodeGeminiAudio (createBuffer workingBackends) [0, 64]
     = Inr \<lparr>sampleRate = 24000, numberOfChannels = 1, channelData = [1 / 2]\<rparr>"
  by (simp add: decodeGeminiAudio_def workingBackends_def webaudio_createBuffer_def
      zeroBuffer_def getInt16_le_def word_cat_eq Let_def)

lemma processGeminiSentence_two:
  assumes "c_textSegments cl = [js ''Hello.'', js ''World.'']"
    and "googleVoice (c_settings cl) = js ''Puck''"
  shows "fst (processGeminiSentence workingBackends cl 0)
     = Inr \<lparr>buffer = \<lparr>sampleRate = 24000, numberOfChannels = 1, channelData = [1 / 2]\<rparr>,
            emotion = js ''Calm''\<rparr>"
  by (simp add: processGeminiSentence_def assms hello_not_blank working_emotion working_speech
      working_decode Let_def)


lemma stopAudio_source:
  assumes "audioRef st = None" "sourceNodeRef st = Some n"
  shows "stopAudio st
     = st\<lparr>device := source_stop n (synth_cancel (device st)), sourceNodeRef := None,
          playback := (playback st)\<lparr>isPlaying := False, isLoading := False,
                                     detectedEmotion := None\<rparr>\<rparr>"
  using assms by (simp add: stopAudio_def)

lemma togglePlay_stopped:
  assumes "textSegments st \<noteq> []" "\<not> isPlaying (playback st)"
    "currentIndex (playback st) \<noteq> - 1"
  shows "togglePlay (render st) st
     = st\<lparr>playback := (playback st)\<lparr>isPlaying := True\<rparr>\<rparr>"
  using assms by (simp add: togglePlay_def render_def)

lemma settle_fulfilled:
  assumes "p_outcome p = Inr item" "activeIndexRef st = index" "c_isPlaying cl"
  shows "settle cl index (AwaitItem p) st
     = st\<lparr>playback := (playback st)\<lparr>isLoading := False,
                                      detectedEmotion := Some (emotion item)\<rparr>,
          nextId := nextId st + 1, sourceNodeRef := Some (nextId st),
          device := source_start (nextId st) (device st)\<rparr>"
proof -
  have "promise_settled p st = st" using assms(1) by (simp add: promise_settled_def)
  then show ?thesis
    by (simp only: settle_def wait.case playSentence_resume_fulfilled [OF assms])
qed

lemma prefetch_miss:
  assumes "\<not> int (length (c_textSegments cl)) \<le> j" "\<not> lru_has (audioCache st) j"
  shows "prefetchGeminiSentence be cl j st
     = st\<lparr>nextId := nextId st + 1,
          producerCalls := producerCalls st @ [j],
          requests := requests st @ snd (processGeminiSentence be cl j),
          audioCache := lru_set (audioCache st) j
            \<lparr>p_id = nextId st, p_index = j, p_origin = ByPrefetch,
             p_outcome = fst (processGeminiSentence be cl j)\<rparr>\<rparr>"
  using assms by (simp add: prefetchGeminiSentence_def invokeProducer_eq)

lemma lru_set_fresh:
  "lru_set \<lparr>cache = [], capacity = 50\<rparr> 0 v = \<lparr>cache = [(0, v)], capacity = 50\<rparr>"
  "lru_set \<lparr>cache = [(0, v)], capacity = 50\<rparr> 1 w
     = \<lparr>cache = [(0, v), (1, w)], capacity = 50\<rparr>"
  by (simp_all add: lru_set_def jsmap_has_def jsmap_set_def Let_def)

lemma scenarioS_first_fields:
  "snd scenarioS_first = AwaitItem scenarioS_promise"
  "activeIndexRef (fst scenarioS_first) = 0"
  "playback (fst scenarioS_first)
     = \<lparr>isPlaying = True, isLoading = True, currentIndex = 0, detectedEmotion = None\<rparr>"
  "nextId (fst scenarioS_first) = 2"
  "\<exists>q. audioCache (fst scenarioS_first)
          = \<lparr>cache = [(0, scenarioS_promise), (1, q)], capacity = 50\<rparr>"
  "device (fst scenarioS_first)
     = \<lparr>utterances = [], audioPlaying = [], sourcePlaying = [], activations = 0,
        pendingEnded = []\<rparr>"
  "audioRef (fst scenarioS_first) = None" "sourceNodeRef (fst scenarioS_first) = None"
  "textSegments (fst scenarioS_first) = [js ''Hello.'', js ''World.'']"
  "settings (fst scenarioS_first) = settings (playingApp Google [js ''Hello.'', js ''World.''])"
proof -
  let ?be = workingBackends
  let ?s0 = "playingApp Google [js ''Hello.'', js ''World.'']"
  let ?cl = "render ?s0"
  let ?s1 = "?s0\<lparr>activeIndexRef := 0\<rparr>"
  have ne: "[js ''Hello.'', js ''World.''] \<noteq> []" by simp
  note f = playingApp_fields [OF ne, of Google]
  have cl: "c_textSegments ?cl = [js ''Hello.'', js ''World.'']"
    "engine (c_settings ?cl) = Google"
    by (simp_all add: render_def f)
  have 1: "startPlayback ?be ?s0 = playSentence_begin ?be ?cl 0 ?s1"
    using startPlayback_playing [of ?s0 ?be] by (simp add: f)
  have 2: "playSentence_begin ?be ?cl 0 ?s1 = playSentence_google ?be ?cl 0 (stop_previous ?s1)"
    by (rule playSentence_begin_google) (simp_all add: cl hello_not_blank)
  have 3: "stop_previous ?s1 = ?s1"
    by (rule stop_previous_silent) (simp_all add: f)
  have 4: "\<not> lru_has (audioCache ?s1) 0" by (simp add: f lru_has_def jsmap_has_def)
  let ?p = "\<lparr>p_id = nextId ?s1, p_index = 0, p_origin = ByPlay,
                 p_outcome = fst (processGeminiSentence ?be ?cl 0)\<rparr>"
  let ?X = "?s1\<lparr>playback := (playback ?s1)\<lparr>isLoading := True\<rparr>,
              nextId := nextId ?s1 + 1,
              producerCalls := producerCalls ?s1 @ [0],
              requests := requests ?s1 @ snd (processGeminiSentence ?be ?cl 0),
              audioCache := lru_set (audioCache ?s1) 0 ?p\<rparr>"
  have p: "?p = scenarioS_promise" by (simp add: scenarioS_promise_def f)
  have xc: "audioCache ?X = \<lparr>cache = [(0, ?p)], capacity = 50\<rparr>"
    by (simp add: f lru_set_fresh)
  have x1: "\<not> lru_has (audioCache ?X) (0 + 1)"
    unfolding xc by (simp add: lru_has_def jsmap_has_def)
  have x2: "\<not> int (length (c_textSegments ?cl)) \<le> 0 + 1" by (simp add: cl)
  have z: "prefetchGeminiSentence ?be ?cl (0 + 2) st = st" for st
    by (rule prefetch_out_of_range) (simp add: cl)
  note e = scenarioS_first_def [unfolded 1 2 3 google_miss [OF 4] prefetch_miss [OF x2 x1] z]
  show "snd scenarioS_first = AwaitItem scenarioS_promise"
    by (simp add: e p [symmetric])
  show "activeIndexRef (fst scenarioS_first) = 0" by (simp add: e)
  show "playback (fst scenarioS_first)
     = \<lparr>isPlaying = True, isLoading = True, currentIndex = 0, detectedEmotion = None\<rparr>"
    by (simp add: e f)
  show "nextId (fst scenarioS_first) = 2" by (simp add: e f)
  have "audioCache (fst scenarioS_first)
      = lru_set \<lparr>cache = [(0, ?p)], capacity = 50\<rparr> 1
          \<lparr>p_id = nextId ?X, p_index = 0 + 1, p_origin = ByPrefetch,
           p_outcome = fst (processGeminiSentence ?be ?cl (0 + 1))\<rparr>"
    unfolding xc [symmetric] by (simp add: e)
  then show "\<exists>q. audioCache (fst scenarioS_first)
          = \<lparr>cache = [(0, scenarioS_promise), (1, q)], capacity = 50\<rparr>"
    unfolding p by (simp only: lru_set_fresh) blast
  show "device (fst scenarioS_first)
     = \<lparr>utterances = [], audioPlaying = [], sourcePlaying = [], activations = 0,
        pendingEnded = []\<rparr>"
    by (simp add: e f)
  show "audioRef (fst scenarioS_first) = None" "sourceNodeRef (fst scenarioS_first) = None"
    "textSegments (fst scenarioS_first) = [js ''Hello.'', js ''World.'']"
    "settings (fst scenarioS_first) = settings ?s0"
    by (simp_all add: e f)
qed


lemma scenarioS_replay_fields:
  "playback scenarioS_replay
     = \<lparr>isPlaying = True, isLoading = False, currentIndex = 0, detectedEmotion = None\<rparr>"
  "activeIndexRef scenarioS_replay = 0"
  "nextId scenarioS_replay = 2"
  "\<exists>q. audioCache scenarioS_replay
          = \<lparr>cache = [(0, scenarioS_promise), (1, q)], capacity = 50\<rparr>"
  "device scenarioS_replay
     = \<lparr>utterances = [], audioPlaying = [], sourcePlaying = [], activations = 0,
        pendingEnded = []\<rparr>"
  "audioRef scenarioS_replay = None" "sourceNodeRef scenarioS_replay = None"
  "textSegments scenarioS_replay = [js ''Hello.'', js ''World.'']"
  "settings scenarioS_replay = settings (playingApp Google [js ''Hello.'', js ''World.''])"
proof -
  let ?s1 = "fst scenarioS_first"
  note f = scenarioS_first_fields
  have st: "stopAudio ?s1
     = ?s1\<lparr>playback := (playback ?s1)\<lparr>isPlaying := False, isLoading := False,
                                       detectedEmotion := None\<rparr>\<rparr>"
    by (rule stopAudio_silent) (simp_all add: f)
  have t: "scenarioS_replay = (stopAudio ?s1)\<lparr>playback := (playback (stopAudio ?s1))
       \<lparr>isPlaying := True\<rparr>\<rparr>"
    unfolding scenarioS_replay_def
    by (rule togglePlay_stopped) (simp_all add: st f)
  show "playback scenarioS_replay
     = \<lparr>isPlaying = True, isLoading = False, currentIndex = 0, detectedEmotion = None\<rparr>"
    "activeIndexRef scenarioS_replay = 0" "nextId scenarioS_replay = 2"
    "device scenarioS_replay
     = \<lparr>utterances = [], audioPlaying = [], sourcePlaying = [], activations = 0,
        pendingEnded = []\<rparr>"
    "audioRef scenarioS_replay = None" "sourceNodeRef scenarioS_replay = None"
    "textSegments scenarioS_replay = [js ''Hello.'', js ''World.'']"
    "settings scenarioS_replay = settings (playingApp Google [js ''Hello.'', js ''World.''])"
    by (simp_all add: t st f)
  from f(5) show "\<exists>q. audioCache scenarioS_replay
          = \<lparr>cache = [(0, scenarioS_promise), (1, q)], capacity = 50\<rparr>"
    by (simp add: t st)
qed

lemma scenarioS_second_fields:
  "snd scenarioS_second = AwaitItem scenarioS_promise"
  "activeIndexRef (fst scenarioS_second) = 0"
  "playback (fst scenarioS_second)
     = \<lparr>isPlaying = True, isLoading = False, currentIndex = 0, detectedEmotion = None\<rparr>"
  "nextId (fst scenarioS_second) = 2"
  "device (fst scenarioS_second)
     = \<lparr>utterances = [], audioPlaying = [], sourcePlaying = [], activations = 0,
        pendingEnded = []\<rparr>"
  "audioRef (fst scenarioS_second) = None" "sourceNodeRef (fst scenarioS_second) = None"
  "producerCalls (fst scenarioS_second) = producerCalls scenarioS_replay"
proof -
  let ?be = workingBackends
  let ?s3 = scenarioS_replay
  let ?cl = "render ?s3"
  let ?s4 = "?s3\<lparr>activeIndexRef := currentIndex (playback ?s3)\<rparr>"
  note f = scenarioS_replay_fields
  have ne: "[js ''Hello.'', js ''World.''] \<noteq> []" by simp
  note f0 = playingApp_fields [OF ne, of Google]
  from f(4) obtain q where c: "audioCache ?s3
      = \<lparr>cache = [(0, scenarioS_promise), (1, q)], capacity = 50\<rparr>" ..
  have cl: "c_textSegments ?cl = [js ''Hello.'', js ''World.'']"
    "engine (c_settings ?cl) = Google"
    by (simp_all add: render_def f f0)
  have pl: "isPlaying (playback ?s3)" by (simp add: f)
  have ci: "currentIndex (playback ?s3) = 0" by (simp add: f)
  have 1: "startPlayback ?be ?s3 = playSentence_begin ?be ?cl 0 ?s4"
    using startPlayback_playing [OF pl, of ?be] by (simp only: ci)
  have 2: "playSentence_begin ?be ?cl 0 ?s4 = playSentence_google ?be ?cl 0 (stop_previous ?s4)"
    by (rule playSentence_begin_google) (simp_all add: cl hello_not_blank)
  have 3: "stop_previous ?s4 = ?s4"
    by (rule stop_previous_silent) (simp_all add: f)
  have 4: "map_of (cache (audioCache ?s4)) 0 = Some scenarioS_promise" by (simp add: c)
  let ?Y = "?s4\<lparr>audioCache := (audioCache ?s4)
               \<lparr>cache := filter (\<lambda>e. fst e \<noteq> 0) (cache (audioCache ?s4))
                          @ [(0, scenarioS_promise)]\<rparr>\<rparr>"
  have y1: "prefetchGeminiSentence ?be ?cl (0 + 1) ?Y = ?Y"
    by (simp add: prefetchGeminiSentence_def c lru_has_def jsmap_has_def)
  have z: "prefetchGeminiSentence ?be ?cl (0 + 2) st = st" for st
    by (rule prefetch_out_of_range) (simp add: cl)
  note e = scenarioS_second_def [unfolded 1 2 3 google_hit [OF 4] y1 z]
  show "snd scenarioS_second = AwaitItem scenarioS_promise"
    "activeIndexRef (fst scenarioS_second) = 0"
    "playback (fst scenarioS_second)
     = \<lparr>isPlaying = True, isLoading = False, currentIndex = 0, detectedEmotion = None\<rparr>"
    "nextId (fst scenarioS_second) = 2"
    "device (fst scenarioS_second)
     = \<lparr>utterances = [], audioPlaying = [], sourcePlaying = [], activations = 0,
        pendingEnded = []\<rparr>"
    "audioRef (fst scenarioS_second) = None" "sourceNodeRef (fst scenarioS_second) = None"
    "producerCalls (fst scenarioS_second) = producerCalls scenarioS_replay"
    by (simp_all add: e f)
qed


lemma scenarioS_promise_fulfilled:
  "p_outcome scenarioS_promise
     = Inr \<lparr>buffer = \<lparr>sampleRate = 24000, numberOfChannels = 1, channelData = [1 / 2]\<rparr>,
            emotion = js ''Calm''\<rparr>"
proof -
  have ne: "[js ''Hello.'', js ''World.''] \<noteq> []" by simp
  note f0 = playingApp_fields [OF ne, of Google]
  have "c_textSegments (render (playingApp Google [js ''Hello.'', js ''World.'']))
          = [js ''Hello.'', js ''World.'']"
    "googleVoice (c_settings (render (playingApp Google [js ''Hello.'', js ''World.''])))
          = js ''Puck''"
    by (simp_all add: render_def f0)
  from processGeminiSentence_two [OF this] show ?thesis
    by (simp only: scenarioS_promise_def promise.simps)
qed

text \<open>
  C7. The body of \<open>stopAudio\<close> does what the claim says of the flags, the tone and
  the other fields (\<open>stopAudio_body\<close>), but it stops only the node its handle refers
  to, and stopping a sounding node fires the \<open>ended\<close> event that \<open>playSentence\<close>
  bound to \<open>playNext\<close>. In the run below both calls of \<open>playSentence\<close> await the
  same cached promise and each starts a source; the second overwrites the handle of the
  first. After \<open>stopAudio\<close> the first source still sounds, and when the \<open>ended\<close>
  event of the second is dispatched \<open>currentIndex\<close> moves from 0 to 1.
\<close>

theorem stop_leaves_a_source_and_advances:
  "snd scenarioS_first = AwaitItem scenarioS_promise
   \<and> snd scenarioS_second = AwaitItem scenarioS_promise
   \<and> p_outcome scenarioS_promise
        = Inr \<lparr>buffer = \<lparr>sampleRate = 24000, numberOfChannels = 1, channelData = [1 / 2]\<rparr>,
               emotion = js ''Calm''\<rparr>
   \<and> sourcePlaying (device scenarioS_sounding) = [2, 3]
   \<and> sourceNodeRef scenarioS_sounding = Some 3
   \<and> currentIndex (playback scenarioS_sounding) = 0
   \<and> sourcePlaying (device scenarioS_stopped) = [2]
   \<and> \<not> isPlaying (playback scenarioS_stopped)
   \<and> currentIndex (playback scenarioS_stopped) = 0
   \<and> pendingEnded (device scenarioS_stopped) = [3]
   \<and> currentIndex (playback scenarioS_ended) = 1"
proof -
  let ?item = "\<lparr>buffer = \<lparr>sampleRate = 24000, numberOfChannels = 1, channelData = [1 / 2]\<rparr>,
            emotion = js ''Calm''\<rparr>"
  let ?cl0 = "render (playingApp Google [js ''Hello.'', js ''World.''])"
  let ?cl1 = "render scenarioS_replay"
  let ?s4 = "fst scenarioS_second"
  note o = scenarioS_promise_fulfilled
  note f1 = scenarioS_first_fields
  note f3 = scenarioS_replay_fields
  note f4 = scenarioS_second_fields
  have ne: "[js ''Hello.'', js ''World.''] \<noteq> []" by simp
  note f0 = playingApp_fields [OF ne, of Google]
  have c0: "c_isPlaying ?cl0" by (simp add: render_def f0)
  have c1: "c_isPlaying ?cl1" "c_textSegments ?cl1 = [js ''Hello.'', js ''World.'']"
    by (simp_all add: render_def f3)
  let ?s5 = "settle ?cl0 0 (AwaitItem scenarioS_promise) ?s4"
  note e5 = settle_fulfilled [OF o f4(2) c0]
  have f5: "activeIndexRef ?s5 = 0" "nextId ?s5 = 3" "audioRef ?s5 = None"
    "device ?s5 = \<lparr>utterances = [], audioPlaying = [], sourcePlaying = [2],
        activations = 1, pendingEnded = []\<rparr>"
    "currentIndex (playback ?s5) = 0" "isPlaying (playback ?s5)"
    by (simp_all add: e5 f4 source_start_def)
  let ?s6 = "settle ?cl1 0 (AwaitItem scenarioS_promise) ?s5"
  note e6 = settle_fulfilled [OF o f5(1) c1(1)]
  have s6: "scenarioS_sounding = ?s6"
    by (simp only: scenarioS_sounding_def f1(1) f4(1))
  have f6: "audioRef scenarioS_sounding = None" "sourceNodeRef scenarioS_sounding = Some 3"
    "device scenarioS_sounding = \<lparr>utterances = [], audioPlaying = [], sourcePlaying = [2, 3],
        activations = 2, pendingEnded = []\<rparr>"
    "currentIndex (playback scenarioS_sounding) = 0"
    unfolding s6 by (simp_all add: e6 f5 source_start_def)
  note e7 = stopAudio_source [OF f6(1) f6(2)]
  have f7: "device scenarioS_stopped = \<lparr>utterances = [], audioPlaying = [],
        sourcePlaying = [2], activations = 2, pendingEnded = [3]\<rparr>"
    "\<not> isPlaying (playback scenarioS_stopped)"
    "currentIndex (playback scenarioS_stopped) = 0"
    unfolding scenarioS_stopped_def
    by (simp_all add: e7 f6 source_stop_def synth_cancel_def)
  have f8: "currentIndex (playback scenarioS_ended) = 1"
    unfolding scenarioS_ended_def
    by (simp add: source_ended_def f7 c1 playNext_def)
  from f1(1) f4(1) o f6(2-4) f7 f8 show ?thesis by simp
qed

end
